theory Spec2Isabelle
  imports Main "HOL-Library.List_Lexorder" "HOL-Library.Char_ord"
begin

section \<open>Tables\<close>

text \<open>
  A pandas DataFrame is modelled by its header (the column labels, in order, possibly
  with repeated labels) and its rows (the cells of each row, by column position).
  A cell is \<open>None\<close> when it is missing (NaN, NaT, None and pd.NA are not told apart) and
  \<open>Some v\<close> otherwise. The values \<open>v\<close> of a table are drawn from one linearly ordered
  type, so that any two present cells of a column can be compared, as sorting needs.
  Row labels (the index of the frame) and column dtypes are not part of the model.
\<close>

type_synonym 'v cell = "'v option"

record 'v frame =
  columns :: "string list"
  rows :: "'v cell list list"

text \<open>
  Cells are read and written by position. A position a row does not reach reads as
  missing, and writing there pads the row with missing cells first, so that every
  function below is total; on a rectangular table neither case arises.
\<close>

definition cell_at :: "'v cell list \<Rightarrow> nat \<Rightarrow> 'v cell" where
  "cell_at r i = (if i < length r then r ! i else None)"

definition put :: "'v cell list \<Rightarrow> nat \<Rightarrow> 'v cell \<Rightarrow> 'v cell list" where
  "put r i v = (r @ replicate (Suc i - length r) None)[i := v]"

definition col_at :: "nat \<Rightarrow> 'v cell list list \<Rightarrow> 'v cell list" where
  "col_at i rs = map (\<lambda>r. cell_at r i) rs"

definition write_col :: "nat \<Rightarrow> 'v cell list \<Rightarrow> 'v cell list list \<Rightarrow> 'v cell list list" where
  "write_col i vals rs = map2 (\<lambda>r v. put r i v) rs vals"

definition positions :: "string list \<Rightarrow> string \<Rightarrow> nat list" where
  "positions cs c = filter (\<lambda>i. cs ! i = c) [0..<length cs]"

datatype error =
    KeyError string
  | ValueError string
  | TypeError string
  | FileNotFoundError string
  | OSError string

definition and_then :: "error + 'a \<Rightarrow> ('a \<Rightarrow> error + 'b) \<Rightarrow> error + 'b" where
  "and_then m f = (case m of Inl e \<Rightarrow> Inl e | Inr x \<Rightarrow> f x)"

text \<open>
  \<open>df[c]\<close> is a column (a Series) only when the label \<open>c\<close> names exactly one column;
  with a repeated label pandas hands back a sub-table, which \<open>to_datetime\<close>,
  \<open>to_numeric\<close> and a single-column assignment all refuse.
\<close>

definition select_column :: "'v frame \<Rightarrow> string \<Rightarrow> 'v cell list option" where
  "select_column df c =
     (case positions (columns df) c of
        [i] \<Rightarrow> Some (col_at i (rows df))
      | _ \<Rightarrow> None)"

text \<open>
  \<open>df[c] = vals\<close>: an existing label is overwritten (every column carrying it), a new
  label is appended as the last column. A column of values must be as long as the table;
  a single value (\<open>df[c] = v\<close>) is repeated for every row.
\<close>

definition assign :: "'v frame \<Rightarrow> string \<Rightarrow> 'v cell list \<Rightarrow> 'v frame" where
  "assign df c vals =
     (if c \<in> set (columns df)
      then df\<lparr>rows := fold (\<lambda>i. write_col i vals) (positions (columns df) c) (rows df)\<rparr>
      else \<lparr>columns = columns df @ [c],
            rows = write_col (length (columns df)) vals (rows df)\<rparr>)"

definition set_column :: "'v frame \<Rightarrow> string \<Rightarrow> 'v cell list \<Rightarrow> error + 'v frame" where
  "set_column df c vals =
     (if length vals \<noteq> length (rows df)
      then Inl (ValueError ''Length of values does not match length of index'')
      else Inr (assign df c vals))"

definition set_scalar :: "'v frame \<Rightarrow> string \<Rightarrow> 'v cell \<Rightarrow> 'v frame" where
  "set_scalar df c v = assign df c (replicate (length (rows df)) v)"

text \<open>\<open>df.dropna(subset=[c])\<close>: rows with a missing cell under the label \<open>c\<close> go.\<close>

definition dropna :: "'v frame \<Rightarrow> string \<Rightarrow> 'v frame" where
  "dropna df c =
     df\<lparr>rows := filter (\<lambda>r. \<forall>i \<in> set (positions (columns df) c). cell_at r i \<noteq> None) (rows df)\<rparr>"

text \<open>
  \<open>df.drop_duplicates(subset=cs)\<close>: the key of a row is made of its cells under the
  labels of \<open>cs\<close>, missing cells counting as equal to each other; of the rows with one
  key the first stays.
\<close>

fun keep_first :: "('r \<Rightarrow> 'k) \<Rightarrow> 'k list \<Rightarrow> 'r list \<Rightarrow> 'r list" where
  "keep_first key seen [] = []"
| "keep_first key seen (r # rs) =
     (if key r \<in> set seen then keep_first key seen rs
      else r # keep_first key (key r # seen) rs)"

definition subset_key :: "string list \<Rightarrow> string list \<Rightarrow> 'v cell list \<Rightarrow> 'v cell list" where
  "subset_key cols cs r = map (cell_at r) (filter (\<lambda>i. cols ! i \<in> set cs) [0..<length cols])"

definition drop_duplicates :: "'v frame \<Rightarrow> string list \<Rightarrow> 'v frame" where
  "drop_duplicates df cs = df\<lparr>rows := keep_first (subset_key (columns df) cs) [] (rows df)\<rparr>"

text \<open>
  \<open>df.sort_values(cs)\<close>: ascending, lexicographic in the labels of \<open>cs\<close>, with the
  missing cells of each label after the present ones (\<open>na_position='last'\<close>). A label
  that names no column or more than one is refused.
\<close>

datatype 'v na_last = Present 'v | Missing

fun na_last_le :: "'v::linorder na_last \<Rightarrow> 'v na_last \<Rightarrow> bool" where
  "na_last_le _ Missing = True"
| "na_last_le Missing (Present _) = False"
| "na_last_le (Present a) (Present b) = (a \<le> b)"

instantiation na_last :: (linorder) linorder
begin

definition less_eq_na_last :: "'a na_last \<Rightarrow> 'a na_last \<Rightarrow> bool" where
  "less_eq_na_last x y = na_last_le x y"

definition less_na_last :: "'a na_last \<Rightarrow> 'a na_last \<Rightarrow> bool" where
  "less_na_last x y = (na_last_le x y \<and> \<not> na_last_le y x)"

instance
proof
  fix x y z :: "'a na_last"
  show "(x < y) = (x \<le> y \<and> \<not> y \<le> x)"
    by (simp add: less_na_last_def less_eq_na_last_def)
  show "x \<le> x"
    by (cases x) (simp_all add: less_eq_na_last_def)
  show "x \<le> y \<Longrightarrow> y \<le> z \<Longrightarrow> x \<le> z"
    by (cases x; cases y; cases z) (simp_all add: less_eq_na_last_def)
  show "x \<le> y \<Longrightarrow> y \<le> x \<Longrightarrow> x = y"
    by (cases x; cases y) (simp_all add: less_eq_na_last_def)
  show "x \<le> y \<or> y \<le> x"
    by (cases x; cases y) (auto simp: less_eq_na_last_def)
qed

end

definition rank :: "'v cell \<Rightarrow> 'v na_last" where
  "rank c = (case c of None \<Rightarrow> Missing | Some v \<Rightarrow> Present v)"

definition sort_key_of :: "nat list \<Rightarrow> 'v cell list \<Rightarrow> 'v na_last list" where
  "sort_key_of idx r = map (\<lambda>i. rank (cell_at r i)) idx"

definition sort_values :: "('v::linorder) frame \<Rightarrow> string list \<Rightarrow> error + 'v frame" where
  "sort_values df cs =
     (if \<forall>c \<in> set cs. length (positions (columns df) c) = 1
      then Inr (df\<lparr>rows := sort_key (sort_key_of (concat (map (positions (columns df)) cs))) (rows df)\<rparr>)
      else Inl (ValueError ''The column label is not unique''))"

text \<open>
  \<open>df[cs]\<close> with a list of labels: the columns carrying each label, label by label in the
  order of \<open>cs\<close>; a label that names no column is refused.
\<close>

definition select_columns :: "'v frame \<Rightarrow> string list \<Rightarrow> error + 'v frame" where
  "select_columns df cs =
     (if set cs \<subseteq> set (columns df)
      then Inr \<lparr>columns = concat (map (\<lambda>c. map (\<lambda>_. c) (positions (columns df) c)) cs),
                rows = map (\<lambda>r. map (cell_at r) (concat (map (positions (columns df)) cs))) (rows df)\<rparr>
      else Inl (KeyError ''not in index''))"

section \<open>Cleaning (data_processing.py)\<close>

text \<open>The columns of the loop that coerces the numbers, in its order.\<close>

definition NUMERIC_COLUMNS :: "string list" where
  "NUMERIC_COLUMNS = [''Open'', ''High'', ''Low'', ''Close'', ''Adj_Close'', ''Volume'']"

definition REQUIRED_COLUMNS :: "string list" where
  "REQUIRED_COLUMNS =
     [''Date'', ''Open'', ''High'', ''Low'', ''Close'', ''Adj_Close'', ''Volume'', ''Ticker'']"

text \<open>
  \<open>str(c).strip().replace(" ", "_")\<close>. A character of a name is a code point below 256.
  \<open>strip\<close> removes the white space of both ends, which among these code points is what
  Python's \<open>str.isspace\<close> accepts: 9 to 13, 28 to 32, 133 (U+0085, next line) and 160
  (U+00A0, no-break space); the white space of Unicode beyond them has no character here.
  Only the space character, 32, is replaced.
\<close>

definition is_space :: "char \<Rightarrow> bool" where
  "is_space c =
     (let n = (of_char c :: nat)
      in (9 \<le> n \<and> n \<le> 13) \<or> (28 \<le> n \<and> n \<le> 32) \<or> n = 133 \<or> n = 160)"

definition strip :: "string \<Rightarrow> string" where
  "strip s = rev (dropWhile is_space (rev (dropWhile is_space s)))"

definition standardise_name :: "string \<Rightarrow> string" where
  "standardise_name c = map (\<lambda>ch. if ch = CHR '' '' then CHR ''_'' else ch) (strip c)"

definition missing_message :: "string \<Rightarrow> string" where
  "missing_message c = ''Expected '' @ [CHR 0x27] @ c @ [CHR 0x27] @ '' column is missing.''"

text \<open>
  \<open>pd.to_datetime(_, errors="coerce")\<close> and \<open>pd.to_numeric(_, errors="coerce")\<close> are
  functions of the library, from a column to a column; they are parameters
  (\<open>to_datetime\<close>, \<open>to_numeric\<close>) of the cleaning function.
\<close>

definition ensure_adj_close :: "'v frame \<Rightarrow> error + 'v frame" where
  "ensure_adj_close df =
     (if ''Adj_Close'' \<notin> set (columns df) \<and> ''Close'' \<in> set (columns df)
      then (case select_column df ''Close'' of
              None \<Rightarrow> Inl (ValueError ''Cannot set a DataFrame with multiple columns to the single column Adj_Close'')
            | Some s \<Rightarrow> set_column df ''Adj_Close'' s)
      else Inr df)"

definition parse_dates :: "('v cell list \<Rightarrow> 'v cell list) \<Rightarrow> 'v frame \<Rightarrow> error + 'v frame" where
  "parse_dates to_datetime df =
     (case select_column df ''Date'' of
        None \<Rightarrow> Inl (ValueError ''cannot assemble with duplicate keys'')
      | Some s \<Rightarrow> and_then (set_column df ''Date'' (to_datetime s)) (\<lambda>df. Inr (dropna df ''Date'')))"

fun coerce_numerics :: "('v cell list \<Rightarrow> 'v cell list) \<Rightarrow> string list \<Rightarrow> 'v frame \<Rightarrow> error + 'v frame" where
  "coerce_numerics to_numeric [] df = Inr df"
| "coerce_numerics to_numeric (col # cols) df =
     (if col \<in> set (columns df)
      then (case select_column df col of
              None \<Rightarrow> Inl (TypeError ''arg must be a list, tuple, 1-d array, or Series'')
            | Some s \<Rightarrow> and_then (set_column df col (to_numeric s)) (coerce_numerics to_numeric cols))
      else coerce_numerics to_numeric cols df)"

fun ensure_schema :: "string list \<Rightarrow> 'v frame \<Rightarrow> 'v frame" where
  "ensure_schema [] df = df"
| "ensure_schema (col # cols) df =
     (if col \<notin> set (columns df)
      then ensure_schema cols (set_scalar df col None)
      else ensure_schema cols df)"

definition clean_prices ::
  "('v cell list \<Rightarrow> 'v cell list) \<Rightarrow> ('v cell list \<Rightarrow> 'v cell list) \<Rightarrow> ('v::linorder) frame \<Rightarrow> error + 'v frame" where
  "clean_prices to_datetime to_numeric df0 =
     (let df = df0\<lparr>columns := map standardise_name (columns df0)\<rparr> in
      if ''Ticker'' \<notin> set (columns df) then Inl (KeyError (missing_message ''Ticker''))
      else if ''Date'' \<notin> set (columns df) then Inl (KeyError (missing_message ''Date''))
      else
        and_then (ensure_adj_close df) (\<lambda>df.
        and_then (parse_dates to_datetime df) (\<lambda>df.
        and_then (coerce_numerics to_numeric NUMERIC_COLUMNS df) (\<lambda>df.
        and_then (sort_values (drop_duplicates df [''Ticker'', ''Date'']) [''Ticker'', ''Date'']) (\<lambda>df.
        select_columns (ensure_schema REQUIRED_COLUMNS df) REQUIRED_COLUMNS)))))"

text \<open>
  For the statements about a cleaned table: the cell of a row under a label that names
  one column (missing otherwise), the row with missing cells written at the positions from
  \<open>n\<close> up to \<open>m\<close>, and the (Ticker, Date) key by which the rows of a table with the
  eight columns are compared, Ticker being its column 7 and Date its column 0.
\<close>

definition cell_under :: "string list \<Rightarrow> 'v cell list \<Rightarrow> string \<Rightarrow> 'v cell" where
  "cell_under cols r c = (case positions cols c of [i] \<Rightarrow> cell_at r i | _ \<Rightarrow> None)"

definition pad :: "nat \<Rightarrow> nat \<Rightarrow> 'v cell list \<Rightarrow> 'v cell list" where
  "pad n m r = fold (\<lambda>j r. put r j None) [n..<m] r"

definition ticker_date_key :: "'v cell list \<Rightarrow> 'v na_last list" where
  "ticker_date_key r = [rank (cell_at r 7), rank (cell_at r 0)]"

text \<open>
  A parser of columns that leaves alone every column made of cells it has itself
  produced and of missing cells, as \<open>to_datetime\<close> leaves dates alone and \<open>to_numeric\<close>
  numbers.
\<close>

definition stable_on_output :: "('v cell list \<Rightarrow> 'v cell list) \<Rightarrow> bool" where
  "stable_on_output f = (\<forall>xs ys. set ys \<subseteq> insert None (set (f xs)) \<longrightarrow> f ys = ys)"

section \<open>The newest snapshot of a ticker (data_processing.py)\<close>

text \<open>
  \<open>raw_dir.glob(pattern)\<close> yields the entries of the directory whose names match the
  pattern, in the order the file system lists them. The listing (\<open>listing\<close>, the names of
  the entries of \<open>raw_dir\<close>) and the matching of a name against a pattern (\<open>glob_match\<close>,
  a function of the library) are arguments. \<open>sorted\<close> orders the paths of one directory
  by their names, character by character (paths as on POSIX).
\<close>

definition joinpath :: "string \<Rightarrow> string \<Rightarrow> string" where
  "joinpath dir name = (if name \<noteq> [] \<and> hd name = CHR ''/'' then name else dir @ ''/'' @ name)"

definition snapshot_pattern :: "string \<Rightarrow> string \<Rightarrow> string" where
  "snapshot_pattern ticker version = ticker @ ''_raw_'' @ version @ ''_*.csv''"

definition latest_snapshot_for_ticker ::
  "(string \<Rightarrow> string \<Rightarrow> bool) \<Rightarrow> string list \<Rightarrow> string \<Rightarrow> string \<Rightarrow> string \<Rightarrow> error + string" where
  "latest_snapshot_for_ticker glob_match listing raw_dir ticker version =
     (let pattern = snapshot_pattern ticker version;
          matches = sort (filter (glob_match pattern) listing)
      in if matches = []
         then Inl (FileNotFoundError (''No raw snapshots found for '' @ ticker @ '' in '' @ raw_dir
                     @ '' (pattern: '' @ pattern @ '')''))
         else Inr (joinpath raw_dir (last matches)))"

text \<open>
  A matcher for the patterns without bracket expressions: \<open>*\<close> stands for any run of
  characters, \<open>?\<close> for any one character, every other character for itself.
\<close>

fun wildcard_match :: "string \<Rightarrow> string \<Rightarrow> bool" where
  "wildcard_match [] s = (s = [])"
| "wildcard_match (p # ps) [] = (p = CHR ''*'' \<and> wildcard_match ps [])"
| "wildcard_match (p # ps) (c # cs) =
     (if p = CHR ''*'' then wildcard_match ps (c # cs) \<or> wildcard_match (p # ps) cs
      else (p = CHR ''?'' \<or> p = c) \<and> wildcard_match ps cs)"

section \<open>The file system and the clock\<close>

text \<open>
  The world the helpers act on: the text of every file by its path, the paths the process
  may not create or write (where \<open>mkdir\<close> and opening a file raise OSError), and the
  readings of the UTC clock, one for each time it is read.
\<close>

record utc =
  year :: nat
  month :: nat
  day :: nat
  hour :: nat
  minute :: nat
  second :: nat

record world =
  files :: "string \<Rightarrow> string option"
  denied :: "string \<Rightarrow> bool"
  clock :: "nat \<Rightarrow> utc"
  reads :: nat

definition digit :: "nat \<Rightarrow> char" where
  "digit d = ''0123456789'' ! (d mod 10)"

definition two_digits :: "nat \<Rightarrow> string" where
  "two_digits n = [digit (n div 10), digit n]"

definition four_digits :: "nat \<Rightarrow> string" where
  "four_digits n = [digit (n div 1000), digit (n div 100), digit (n div 10), digit n]"

text \<open>\<open>strftime("%Y%m%d_%H%M%S")\<close>, for the years of four digits.\<close>

definition strftime :: "utc \<Rightarrow> string" where
  "strftime t = four_digits (year t) @ two_digits (month t) @ two_digits (day t) @ ''_''
                @ two_digits (hour t) @ two_digits (minute t) @ two_digits (second t)"

definition make_timestamp :: "world \<Rightarrow> string \<times> world" where
  "make_timestamp w = (strftime (clock w (reads w)), w\<lparr>reads := Suc (reads w)\<rparr>)"

definition mkdir :: "string \<Rightarrow> world \<Rightarrow> string option" where
  "mkdir dir w = (if denied w dir then Some (''Permission denied: '' @ dir) else None)"

definition write_text :: "string \<Rightarrow> string \<Rightarrow> world \<Rightarrow> string + world" where
  "write_text path text w =
     (if denied w path then Inl (''Permission denied: '' @ path)
      else Inr (w\<lparr>files := (files w)(path \<mapsto> text)\<rparr>))"

section \<open>Saving and loading the clean prices (data_processing.py)\<close>



section \<open>Downloading (data_collection.py)\<close>

text \<open>
  The exception a download or a save ends with, as \<open>except Exception as e\<close> catches it:
  each carries the text \<open>str(e)\<close>.
\<close>

datatype caught = ValueErr string | OSErr string | ProviderErr string

fun str_of :: "caught \<Rightarrow> string" where
  "str_of (ValueErr m) = m"
| "str_of (OSErr m) = m"
| "str_of (ProviderErr m) = m"

text \<open>
  What \<open>yf.download\<close> hands back: a table whose rows are labelled by an index (the dates),
  the index having a name or none.
\<close>

record 'v indexed =
  index_name :: "string option"
  labels :: "string list"
  entries :: "('v cell \<times> 'v cell list) list"

definition empty_frame :: "'v indexed \<Rightarrow> bool" where
  "empty_frame df = (entries df = [] \<or> labels df = [])"

text \<open>
  \<open>df.reset_index()\<close> makes the index the first column, under the name of the index
  (\<open>index\<close>, or \<open>level_0\<close> when that is taken, for an index without a name), and refuses
  to when a column has that name already.
\<close>

definition index_label :: "'v indexed \<Rightarrow> string" where
  "index_label df =
     (case index_name df of
        Some n \<Rightarrow> n
      | None \<Rightarrow> if ''index'' \<in> set (labels df) then ''level_0'' else ''index'')"

definition reset_index :: "'v indexed \<Rightarrow> caught + 'v frame" where
  "reset_index df =
     (let name = index_label df
      in if name \<in> set (labels df)
         then Inl (ValueErr (''cannot insert '' @ name @ '', already exists''))
         else Inr \<lparr>columns = name # labels df, rows = map (\<lambda>(i, r). i # r) (entries df)\<rparr>)"

text \<open>
  The surroundings of the download: the provider (\<open>yf.download\<close>, which may raise, return
  nothing or return a table, and may change the world), the cell value that stands for a
  Python string, and the text \<open>to_csv\<close> writes for a table (\<open>frame_to_csv\<close>).
\<close>

record 'v env =
  yf_download :: "string \<Rightarrow> string \<Rightarrow> string \<Rightarrow> world \<Rightarrow> (caught + 'v indexed option) \<times> world"
  cell_of_str :: "string \<Rightarrow> 'v"
  frame_to_csv :: "'v frame \<Rightarrow> string"

definition download_stock_data ::
  "'v env \<Rightarrow> string \<Rightarrow> string \<Rightarrow> string \<Rightarrow> world \<Rightarrow> (caught + 'v frame) \<times> world" where
  "download_stock_data env ticker start end w =
     (case yf_download env ticker start end w of
        (Inl e, w1) \<Rightarrow> (Inl e, w1)
      | (Inr None, w1) \<Rightarrow> (Inl (ValueErr (''No data returned for ticker: '' @ ticker)), w1)
      | (Inr (Some df), w1) \<Rightarrow>
          (if empty_frame df then (Inl (ValueErr (''No data returned for ticker: '' @ ticker)), w1)
           else (case reset_index df of
                   Inl e \<Rightarrow> (Inl e, w1)
                 | Inr df \<Rightarrow> (Inr (set_scalar df ''Ticker'' (Some (cell_of_str env ticker))), w1))))"

definition save_snapshot ::
  "'v env \<Rightarrow> 'v frame \<Rightarrow> string \<Rightarrow> string \<Rightarrow> string \<Rightarrow> world \<Rightarrow> (caught + string) \<times> world" where
  "save_snapshot env df out_dir ticker version w =
     (case mkdir out_dir w of
        Some msg \<Rightarrow> (Inl (OSErr msg), w)
      | None \<Rightarrow>
          (let (stamp, w1) = make_timestamp w;
               file_path = joinpath out_dir (ticker @ ''_raw_'' @ version @ ''_'' @ stamp @ ''.csv'')
           in case write_text file_path (frame_to_csv env df) w1 of
                Inl msg \<Rightarrow> (Inl (OSErr msg), w1)
              | Inr w2 \<Rightarrow> (Inr file_path, w2)))"

definition failure_entry :: "string \<Rightarrow> caught \<Rightarrow> string" where
  "failure_entry ticker e = ticker @ '': '' @ str_of e"

text \<open>
  The loop of \<open>download_many\<close>, with its three lists; the body of the \<open>try\<close> is the
  download followed by the save, and either exception ends in the \<open>except\<close> branch,
  which records \<open>f"{ticker}: {e}"\<close>.
\<close>

fun download_loop ::
  "'v env \<Rightarrow> string list \<Rightarrow> string \<Rightarrow> string \<Rightarrow> string \<Rightarrow> string
     \<Rightarrow> 'v frame list \<times> string list \<times> string list \<Rightarrow> world
     \<Rightarrow> ('v frame list \<times> string list \<times> string list) \<times> world" where
  "download_loop env [] start end out_dir version acc w = (acc, w)"
| "download_loop env (ticker # tickers) start end out_dir version (all_data, failed, saved_paths) w =
     (case download_stock_data env ticker start end w of
        (Inl e, w1) \<Rightarrow>
          download_loop env tickers start end out_dir version
            (all_data, failed @ [failure_entry ticker e], saved_paths) w1
      | (Inr df, w1) \<Rightarrow>
          (case save_snapshot env df out_dir ticker version w1 of
             (Inl e, w2) \<Rightarrow>
               download_loop env tickers start end out_dir version
                 (all_data, failed @ [failure_entry ticker e], saved_paths) w2
           | (Inr saved_path, w2) \<Rightarrow>
               download_loop env tickers start end out_dir version
                 (all_data @ [df], failed, saved_paths @ [saved_path]) w2))"

definition download_many ::
  "'v env \<Rightarrow> string list \<Rightarrow> string \<Rightarrow> string \<Rightarrow> string \<Rightarrow> string \<Rightarrow> world
     \<Rightarrow> ('v frame list \<times> string list \<times> string list) \<times> world" where
  "download_many env tickers start end out_dir version w =
     download_loop env tickers start end out_dir version ([], [], []) w"

text \<open>
  The batch as the specification tells it: every ticker, in the order given, is attempted
  once (fetch, then save) in the world the attempts before it have left, and has one
  outcome, the exception caught or the table with the path it was saved to.
\<close>

definition attempt ::
  "'v env \<Rightarrow> string \<Rightarrow> string \<Rightarrow> string \<Rightarrow> string \<Rightarrow> string \<Rightarrow> world
     \<Rightarrow> (caught + 'v frame \<times> string) \<times> world" where
  "attempt env ticker start end out_dir version w =
     (case download_stock_data env ticker start end w of
        (Inl e, w1) \<Rightarrow> (Inl e, w1)
      | (Inr df, w1) \<Rightarrow>
          (case save_snapshot env df out_dir ticker version w1 of
             (Inl e, w2) \<Rightarrow> (Inl e, w2)
           | (Inr p, w2) \<Rightarrow> (Inr (df, p), w2)))"

fun outcomes ::
  "'v env \<Rightarrow> string list \<Rightarrow> string \<Rightarrow> string \<Rightarrow> string \<Rightarrow> string \<Rightarrow> world
     \<Rightarrow> (string \<times> (caught + 'v frame \<times> string)) list" where
  "outcomes env [] start end out_dir version w = []"
| "outcomes env (ticker # tickers) start end out_dir version w =
     (ticker, fst (attempt env ticker start end out_dir version w))
       # outcomes env tickers start end out_dir version (snd (attempt env ticker start end out_dir version w))"

definition tables_of :: "(string \<times> (caught + 'v frame \<times> string)) list \<Rightarrow> 'v frame list" where
  "tables_of tr = concat (map (\<lambda>(t, r). case r of Inl e \<Rightarrow> [] | Inr (df, p) \<Rightarrow> [df]) tr)"

definition paths_of :: "(string \<times> (caught + 'v frame \<times> string)) list \<Rightarrow> string list" where
  "paths_of tr = concat (map (\<lambda>(t, r). case r of Inl e \<Rightarrow> [] | Inr (df, p) \<Rightarrow> [p]) tr)"

definition failures_of :: "(string \<times> (caught + 'v frame \<times> string)) list \<Rightarrow> string list" where
  "failures_of tr =
     concat (map (\<lambda>(t, r). case r of Inl e \<Rightarrow> [failure_entry t e] | Inr (df, p) \<Rightarrow> []) tr)"

section \<open>Sample data\<close>

text \<open>
  Concrete tables, parsers, a provider and a world, with text for the cell values, on
  which the statements below are exercised. \<open>sample_parse\<close> keeps the texts made of
  digits, dots and dashes and turns every other cell into a missing one.
\<close>

definition sample_parse :: "string cell list \<Rightarrow> string cell list" where
  "sample_parse xs =
     map (\<lambda>c. case c of
                 None \<Rightarrow> None
               | Some s \<Rightarrow> if s \<noteq> [] \<and> list_all (\<lambda>ch. ch \<in> set ''0123456789-.'') s then Some s else None) xs"

definition sample_raw :: "string frame" where
  "sample_raw =
     \<lparr>columns = ['' Date'', ''Close'', ''Ticker '', ''Note''],
      rows = [[Some ''2020-01-03'', Some ''3.5'', Some ''SPY'', Some ''x''],
              [Some ''2020-01-02'', Some ''n/a'', Some ''SPY'', None],
              [Some ''bad'', Some ''1'', Some ''SPY'', None],
              [Some ''2020-01-03'', Some ''9'', Some ''SPY'', None],
              [Some ''2020-01-01'', Some ''7'', None, None],
              [Some ''2020-01-01'', Some ''7'', Some ''AAA'', None]]\<rparr>"

definition sample_clean :: "string frame" where
  "sample_clean =
     \<lparr>columns = [''Date'', ''Open'', ''High'', ''Low'', ''Close'', ''Adj_Close'', ''Volume'', ''Ticker''],
      rows = [[Some ''2020-01-01'', None, None, None, Some ''7'', Some ''7'', None, Some ''AAA''],
              [Some ''2020-01-02'', None, None, None, None, None, None, Some ''SPY''],
              [Some ''2020-01-03'', None, None, None, Some ''3.5'', Some ''3.5'', None, Some ''SPY''],
              [Some ''2020-01-01'', None, None, None, Some ''7'', Some ''7'', None, None]]\<rparr>"

definition sample_no_ticker :: "string frame" where
  "sample_no_ticker = \<lparr>columns = [''Date'', ''Close''], rows = [[Some ''2020-01-03'', Some ''3.5'']]\<rparr>"

definition sample_no_date :: "string frame" where
  "sample_no_date = \<lparr>columns = [''Ticker'', ''Close''], rows = [[Some ''SPY'', Some ''3.5'']]\<rparr>"

definition sample_indexed :: "string indexed" where
  "sample_indexed =
     \<lparr>index_name = Some ''Date'',
      labels = [''Open'', ''Close''],
      entries = [(Some ''2020-01-02'', [Some ''1.0'', Some ''2.0'']),
                 (Some ''2020-01-03'', [Some ''2.0'', Some ''3.5''])]\<rparr>"


fun join_fields :: "string list \<Rightarrow> string" where
  "join_fields [] = []"
| "join_fields [x] = x"
| "join_fields (x # y # ys) = x @ '','' @ join_fields (y # ys)"



definition sample_to_csv :: "string frame \<Rightarrow> string" where
  "sample_to_csv df =
     concat (map (\<lambda>line. join_fields line @ [CHR 0x0A])
               (columns df # map (map (\<lambda>c. case c of None \<Rightarrow> [] | Some s \<Rightarrow> s)) (rows df)))"


definition sample_listing :: "string list" where
  "sample_listing =
     [''SPY_raw_v1_20240102_030405.csv'', ''notes.txt'', ''SPY_raw_v1_20240301_000000.csv'',
      ''TSLA_raw_v1_20250101_000000.csv'', ''SPY_raw_v1_20231231_235959.csv'']"

definition sample_env :: "string env" where
  "sample_env =
     \<lparr>yf_download = (\<lambda>ticker start end w.
          (if ticker = ''BBB'' then Inl (ProviderErr ''connection reset'')
           else if ticker = ''CCC'' then Inr None
           else Inr (Some sample_indexed), w)),
      cell_of_str = (\<lambda>s. s),
      frame_to_csv = sample_to_csv\<rparr>"



definition sample_world :: world where
  "sample_world =
     \<lparr>files = (\<lambda>p. None),
      denied = (\<lambda>p. p = ''/locked'' \<or> p = ''raw/DDD_raw_v1_20240102_030405.csv''),
      clock = (\<lambda>n. \<lparr>year = 2024, month = 1, day = 2, hour = 3, minute = 4, second = 5\<rparr>),
      reads = 0\<rparr>"

section \<open>Cleaning: missing key columns\<close>

text \<open>
  C3. A table that, after its column names have been standardised, has no Ticker column
  is refused with the KeyError (the spec's SchemaError) that names Ticker; a table that
  has Ticker but no Date column is refused with the KeyError that names Date. The error
  is the whole result: no table is returned with it.
\<close>

theorem clean_prices_missing_key_column:
  "(''Ticker'' \<notin> set (map standardise_name (columns df)) \<longrightarrow>
      clean_prices to_datetime to_numeric df
        = Inl (KeyError (''Expected '' @ [CHR 0x27] @ ''Ticker'' @ [CHR 0x27] @ '' column is missing.'')))
   \<and> (''Ticker'' \<in> set (map standardise_name (columns df))
        \<and> ''Date'' \<notin> set (map standardise_name (columns df)) \<longrightarrow>
      clean_prices to_datetime to_numeric df
        = Inl (KeyError (''Expected '' @ [CHR 0x27] @ ''Date'' @ [CHR 0x27] @ '' column is missing.'')))"
  by (simp add: clean_prices_def Let_def missing_message_def)

theorem clean_prices_missing_key_column_witness:
  "''Ticker'' \<notin> set (map standardise_name (columns sample_no_ticker))
   \<and> clean_prices sample_parse sample_parse sample_no_ticker
        = Inl (KeyError (''Expected '' @ [CHR 0x27] @ ''Ticker'' @ [CHR 0x27] @ '' column is missing.''))
   \<and> ''Ticker'' \<in> set (map standardise_name (columns sample_no_date))
   \<and> ''Date'' \<notin> set (map standardise_name (columns sample_no_date))
   \<and> clean_prices sample_parse sample_parse sample_no_date
        = Inl (KeyError (''Expected '' @ [CHR 0x27] @ ''Date'' @ [CHR 0x27] @ '' column is missing.''))"
  using clean_prices_missing_key_column [of sample_no_ticker sample_parse sample_parse]
        clean_prices_missing_key_column [of sample_no_date sample_parse sample_parse]
  by (simp add: sample_no_ticker_def sample_no_date_def standardise_name_def strip_def is_space_def)

section \<open>Downloading a batch\<close>

lemma tables_of_simps:
  "tables_of [] = []"
  "tables_of ((t, Inl e) # tr) = tables_of tr"
  "tables_of ((t, Inr (df, p)) # tr) = df # tables_of tr"
  by (simp_all add: tables_of_def)

lemma paths_of_simps:
  "paths_of [] = []"
  "paths_of ((t, Inl e) # tr) = paths_of tr"
  "paths_of ((t, Inr (df, p)) # tr) = p # paths_of tr"
  by (simp_all add: paths_of_def)

lemma failures_of_simps:
  "failures_of [] = []"
  "failures_of ((t, Inl e) # tr) = failure_entry t e # failures_of tr"
  "failures_of ((t, Inr (df, p)) # tr) = failures_of tr"
  by (simp_all add: failures_of_def)

lemma download_loop_outcomes:
  "fst (download_loop env tickers start end out_dir version (all_data, failed, saved_paths) w)
     = (all_data @ tables_of (outcomes env tickers start end out_dir version w),
        failed @ failures_of (outcomes env tickers start end out_dir version w),
        saved_paths @ paths_of (outcomes env tickers start end out_dir version w))"
proof (induction tickers arbitrary: all_data failed saved_paths w)
  case Nil
  show ?case by (simp add: tables_of_simps failures_of_simps paths_of_simps)
next
  case (Cons t ts)
  show ?case
    by (simp add: Cons.IH attempt_def tables_of_simps failures_of_simps paths_of_simps
             split: prod.splits sum.splits)
qed

lemma download_many_outcomes:
  "fst (download_many env tickers start end out_dir version w)
     = (tables_of (outcomes env tickers start end out_dir version w),
        failures_of (outcomes env tickers start end out_dir version w),
        paths_of (outcomes env tickers start end out_dir version w))"
  by (simp add: download_many_def download_loop_outcomes)

lemma map_fst_outcomes: "map fst (outcomes env tickers start end out_dir version w) = tickers"
  by (induction tickers arbitrary: w) simp_all

lemma outcome_cases:
  obtains (failed) t e where "x = (t, Inl e)" | (saved) t df p where "x = (t, Inr (df, p))"
  by (cases x; cases "snd x") auto

lemma tables_by_outcome:
  "list_all2 (\<lambda>(t, r) df. \<exists>p. r = Inr (df, p)) (filter (\<lambda>(t, r). \<not> isl r) tr) (tables_of tr)"
proof (induction tr)
  case Nil
  show ?case by (simp add: tables_of_simps)
next
  case (Cons x tr)
  then show ?case by (cases x rule: outcome_cases) (simp_all add: tables_of_simps)
qed

lemma paths_by_outcome:
  "list_all2 (\<lambda>(t, r) p. \<exists>df. r = Inr (df, p)) (filter (\<lambda>(t, r). \<not> isl r) tr) (paths_of tr)"
proof (induction tr)
  case Nil
  show ?case by (simp add: paths_of_simps)
next
  case (Cons x tr)
  then show ?case by (cases x rule: outcome_cases) (simp_all add: paths_of_simps)
qed

lemma failures_by_outcome:
  "list_all2 (\<lambda>(t, r) m. \<exists>e. r = Inl e \<and> m = failure_entry t e) (filter (\<lambda>(t, r). isl r) tr) (failures_of tr)"
proof (induction tr)
  case Nil
  show ?case by (simp add: failures_of_simps)
next
  case (Cons x tr)
  then show ?case by (cases x rule: outcome_cases) (simp_all add: failures_of_simps)
qed

lemma saved_by_outcome:
  "list_all2 (\<lambda>(t, r) (df, p). r = Inr (df, p)) (filter (\<lambda>(t, r). \<not> isl r) tr)
     (zip (tables_of tr) (paths_of tr))"
proof (induction tr)
  case Nil
  show ?case by (simp add: tables_of_simps paths_of_simps)
next
  case (Cons x tr)
  then show ?case by (cases x rule: outcome_cases) (simp_all add: tables_of_simps paths_of_simps)
qed

lemma length_tables_paths: "length (tables_of tr) = length (paths_of tr)"
proof (induction tr)
  case Nil
  show ?case by (simp add: tables_of_simps paths_of_simps)
next
  case (Cons x tr)
  then show ?case by (cases x rule: outcome_cases) (simp_all add: tables_of_simps paths_of_simps)
qed

text \<open>
  C6. The tickers are processed in the order given, each one attempted in the world the
  attempts before it have left, whatever their outcomes: the outcomes of a batch are one
  for every ticker of the sequence, in order. A ticker whose download or save raises adds
  the entry \<open>ticker: message\<close> to the failures and nothing else; the tables and the paths
  of the tickers that went through are all returned, in order.
\<close>

theorem download_many_continues_after_failure:
  "map fst (outcomes env tickers start end out_dir version w) = tickers
   \<and> fst (download_many env tickers start end out_dir version w)
       = (tables_of (outcomes env tickers start end out_dir version w),
          failures_of (outcomes env tickers start end out_dir version w),
          paths_of (outcomes env tickers start end out_dir version w))"
  by (simp add: download_many_outcomes map_fst_outcomes)

text \<open>
  C7, as amended. The tables and the saved paths hold an entry for exactly the tickers
  that succeeded fully, in the order encountered; the failure messages hold an entry for
  exactly the tickers that failed, in the order encountered.
\<close>

theorem download_many_entries_by_outcome:
  "list_all2 (\<lambda>(t, r) df. \<exists>p. r = Inr (df, p))
      (filter (\<lambda>(t, r). \<not> isl r) (outcomes env tickers start end out_dir version w))
      (fst (fst (download_many env tickers start end out_dir version w)))
   \<and> list_all2 (\<lambda>(t, r) p. \<exists>df. r = Inr (df, p))
      (filter (\<lambda>(t, r). \<not> isl r) (outcomes env tickers start end out_dir version w))
      (snd (snd (fst (download_many env tickers start end out_dir version w))))
   \<and> list_all2 (\<lambda>(t, r) m. \<exists>e. r = Inl e \<and> m = failure_entry t e)
      (filter (\<lambda>(t, r). isl r) (outcomes env tickers start end out_dir version w))
      (fst (snd (fst (download_many env tickers start end out_dir version w))))"
  by (simp add: download_many_outcomes tables_by_outcome paths_by_outcome failures_by_outcome)

text \<open>
  C10. The tables and the saved paths are equally many, and the table and the path at one
  index are those of one ticker that succeeded. A ticker whose download succeeds and whose
  save then raises adds its failure entry and leaves the tables and the paths as the rest
  of the batch alone makes them.
\<close>

theorem download_many_tables_match_paths:
  "length (fst (fst (download_many env tickers start end out_dir version w)))
     = length (snd (snd (fst (download_many env tickers start end out_dir version w))))
   \<and> list_all2 (\<lambda>(t, r) (df, p). r = Inr (df, p))
        (filter (\<lambda>(t, r). \<not> isl r) (outcomes env tickers start end out_dir version w))
        (zip (fst (fst (download_many env tickers start end out_dir version w)))
             (snd (snd (fst (download_many env tickers start end out_dir version w)))))
   \<and> (download_stock_data env ticker start end w = (Inr df, w1)
        \<and> save_snapshot env df out_dir ticker version w1 = (Inl e, w2) \<longrightarrow>
      fst (download_many env (ticker # tickers) start end out_dir version w)
        = (fst (fst (download_many env tickers start end out_dir version w2)),
           failure_entry ticker e # fst (snd (fst (download_many env tickers start end out_dir version w2))),
           snd (snd (fst (download_many env tickers start end out_dir version w2)))))"
  by (simp add: download_many_outcomes saved_by_outcome length_tables_paths attempt_def
        tables_of_simps paths_of_simps failures_of_simps)

text \<open>The definitions a run on the sample data unfolds.\<close>

lemmas sample_run_defs = attempt_def sample_env_def sample_world_def download_stock_data_def save_snapshot_def
     mkdir_def make_timestamp_def write_text_def strftime_def four_digits_def two_digits_def digit_def joinpath_def
     reset_index_def index_label_def empty_frame_def failure_entry_def download_many_def sample_indexed_def set_scalar_def assign_def write_col_def put_def
     positions_def Let_def

theorem download_many_continues_after_failure_witness:
  "map fst (outcomes sample_env [''AAA'', ''BBB'', ''AAA''] ''2010-01-01'' ''2024-01-02'' ''raw'' ''v1'' sample_world)
     = [''AAA'', ''BBB'', ''AAA'']
   \<and> fst (download_many sample_env [''AAA'', ''BBB'', ''AAA''] ''2010-01-01'' ''2024-01-02'' ''raw'' ''v1'' sample_world)
     = ([\<lparr>columns = [''Date'', ''Open'', ''Close'', ''Ticker''],
          rows = [[Some ''2020-01-02'', Some ''1.0'', Some ''2.0'', Some ''AAA''],
                  [Some ''2020-01-03'', Some ''2.0'', Some ''3.5'', Some ''AAA'']]\<rparr>,
         \<lparr>columns = [''Date'', ''Open'', ''Close'', ''Ticker''],
          rows = [[Some ''2020-01-02'', Some ''1.0'', Some ''2.0'', Some ''AAA''],
                  [Some ''2020-01-03'', Some ''2.0'', Some ''3.5'', Some ''AAA'']]\<rparr>],
        [''BBB: connection reset''],
        [''raw/AAA_raw_v1_20240102_030405.csv'', ''raw/AAA_raw_v1_20240102_030405.csv''])"
  using download_many_continues_after_failure
          [of sample_env "[''AAA'', ''BBB'', ''AAA'']" "''2010-01-01''" "''2024-01-02''" "''raw''" "''v1''" sample_world]
  by (simp add: sample_run_defs tables_of_simps paths_of_simps failures_of_simps)

text \<open>
  C7 as stated fails: the failure list holds entries for the tickers that did not
  succeed. A batch of the one ticker BBB, whose download raises, returns no table, no
  path and the failure entry of BBB.
\<close>

theorem download_many_failures_counterexample:
  "fst (attempt sample_env ''BBB'' ''2010-01-01'' ''2024-01-02'' ''raw'' ''v1'' sample_world)
     = Inl (ProviderErr ''connection reset'')
   \<and> fst (download_many sample_env [''BBB''] ''2010-01-01'' ''2024-01-02'' ''raw'' ''v1'' sample_world)
     = ([], [''BBB: connection reset''], [])"
  by (simp add: download_many_def sample_run_defs)

theorem download_many_entries_by_outcome_witness:
  "list_all2 (\<lambda>(t, r) df. \<exists>p. r = Inr (df, p))
      [(''AAA'', Inr (\<lparr>columns = [''Date'', ''Open'', ''Close'', ''Ticker''],
          rows = [[Some ''2020-01-02'', Some ''1.0'', Some ''2.0'', Some ''AAA''],
                  [Some ''2020-01-03'', Some ''2.0'', Some ''3.5'', Some ''AAA'']]\<rparr>, ''raw/AAA_raw_v1_20240102_030405.csv''))]
      (fst (fst (download_many sample_env [''CCC'', ''AAA''] ''2010-01-01'' ''2024-01-02'' ''raw'' ''v1'' sample_world)))
   \<and> list_all2 (\<lambda>(t, r) p. \<exists>df. r = Inr (df, p))
      [(''AAA'', Inr (\<lparr>columns = [''Date'', ''Open'', ''Close'', ''Ticker''],
          rows = [[Some ''2020-01-02'', Some ''1.0'', Some ''2.0'', Some ''AAA''],
                  [Some ''2020-01-03'', Some ''2.0'', Some ''3.5'', Some ''AAA'']]\<rparr>, ''raw/AAA_raw_v1_20240102_030405.csv''))]
      (snd (snd (fst (download_many sample_env [''CCC'', ''AAA''] ''2010-01-01'' ''2024-01-02'' ''raw'' ''v1'' sample_world))))
   \<and> list_all2 (\<lambda>(t, r) m. \<exists>e. r = Inl e \<and> m = failure_entry t e)
      [(''CCC'', Inl (ValueErr ''No data returned for ticker: CCC''))]
      (fst (snd (fst (download_many sample_env [''CCC'', ''AAA''] ''2010-01-01'' ''2024-01-02'' ''raw'' ''v1'' sample_world))))"
  using download_many_entries_by_outcome
          [of sample_env "[''CCC'', ''AAA'']" "''2010-01-01''" "''2024-01-02''" "''raw''" "''v1''" sample_world]
  by (simp add: sample_run_defs)

theorem download_many_tables_match_paths_witness:
  "download_stock_data sample_env ''DDD'' ''2010-01-01'' ''2024-01-02'' sample_world
     = (Inr \<lparr>columns = [''Date'', ''Open'', ''Close'', ''Ticker''],
          rows = [[Some ''2020-01-02'', Some ''1.0'', Some ''2.0'', Some ''DDD''],
                  [Some ''2020-01-03'', Some ''2.0'', Some ''3.5'', Some ''DDD'']]\<rparr>, sample_world)
   \<and> fst (save_snapshot sample_env \<lparr>columns = [''Date'', ''Open'', ''Close'', ''Ticker''],
          rows = [[Some ''2020-01-02'', Some ''1.0'', Some ''2.0'', Some ''DDD''],
                  [Some ''2020-01-03'', Some ''2.0'', Some ''3.5'', Some ''DDD'']]\<rparr> ''raw'' ''DDD'' ''v1'' sample_world)
     = Inl (OSErr ''Permission denied: raw/DDD_raw_v1_20240102_030405.csv'')
   \<and> fst (download_many sample_env [''DDD'', ''AAA''] ''2010-01-01'' ''2024-01-02'' ''raw'' ''v1'' sample_world)
     = ([\<lparr>columns = [''Date'', ''Open'', ''Close'', ''Ticker''],
          rows = [[Some ''2020-01-02'', Some ''1.0'', Some ''2.0'', Some ''AAA''],
                  [Some ''2020-01-03'', Some ''2.0'', Some ''3.5'', Some ''AAA'']]\<rparr>],
        [''DDD: Permission denied: raw/DDD_raw_v1_20240102_030405.csv''],
        [''raw/AAA_raw_v1_20240102_030405.csv''])"
  using download_many_tables_match_paths
          [where env = sample_env and tickers = "[''AAA'']" and start = "''2010-01-01''"
              and ?end = "''2024-01-02''" and out_dir = "''raw''" and version = "''v1''"
              and ?w2.0 = "sample_world\<lparr>reads := Suc 0\<rparr>" and ticker = "''DDD''" and w = sample_world
              and ?w1.0 = sample_world and e = "OSErr ''Permission denied: raw/DDD_raw_v1_20240102_030405.csv''"
              and df = "\<lparr>columns = [''Date'', ''Open'', ''Close'', ''Ticker''],
          rows = [[Some ''2020-01-02'', Some ''1.0'', Some ''2.0'', Some ''DDD''],
                  [Some ''2020-01-03'', Some ''2.0'', Some ''3.5'', Some ''DDD'']]\<rparr>"]
  by (simp add: download_many_def sample_run_defs)

section \<open>The newest snapshot\<close>

lemma sorted_le_last: "sorted xs \<Longrightarrow> x \<in> set xs \<Longrightarrow> x \<le> last xs"
  by (induction xs) auto

lemma last_sort_Max:
  fixes xs :: "'a::linorder list"
  assumes "xs \<noteq> []"
  shows "last (sort xs) = Max (set xs)"
proof -
  have ne: "sort xs \<noteq> []"
    using assms by (metis length_sort length_0_conv)
  have "Max (set (sort xs)) = last (sort xs)"
  proof (rule Max_eqI)
    show "finite (set (sort xs))" by simp
    show "last (sort xs) \<in> set (sort xs)" using ne by (rule last_in_set)
    fix y assume "y \<in> set (sort xs)"
    then show "y \<le> last (sort xs)" by (rule sorted_le_last [OF sorted_sort])
  qed
  then show ?thesis by simp
qed

lemma stamped_name_less:
  fixes a b :: string
  assumes "a < b" and "length a = length b"
  shows "p @ a @ s < p @ b @ s"
proof -
  have "(a, b) \<in> lexord {(u, v). u < v}"
    using assms(1) by (simp add: list_less_def)
  then have "(a @ s, b @ s) \<in> lexord {(u, v). u < v}"
    using assms(2) by (intro lexord_sufI) simp_all
  then have "(p @ a @ s, p @ b @ s) \<in> lexord {(u, v). u < v}"
    by (rule lexord_append_leftI)
  then show ?thesis by (simp add: list_less_def)
qed

lemma latest_snapshot_unfold:
  "filter (glob_match (snapshot_pattern ticker version)) listing \<noteq> [] \<Longrightarrow>
   latest_snapshot_for_ticker glob_match listing raw_dir ticker version
     = Inr (joinpath raw_dir (Max (set (filter (glob_match (snapshot_pattern ticker version)) listing))))"
proof -
  assume ne: "filter (glob_match (snapshot_pattern ticker version)) listing \<noteq> []"
  then have "sort (filter (glob_match (snapshot_pattern ticker version)) listing) \<noteq> []"
    by (metis length_sort length_0_conv)
  then show ?thesis
    using ne by (simp add: latest_snapshot_for_ticker_def Let_def last_sort_Max)
qed

text \<open>
  C5. When the directory holds a file that matches the pattern of the ticker and the
  version, the newest snapshot is the greatest of the matching names in the order of text,
  whatever the order of the listing; with just three matching snapshots, stamped
  \<open>T1 < T2 < T3\<close> (stamps of one length, as the format of the time stamp makes them), it
  is the one stamped \<open>T3\<close>.
\<close>

theorem latest_snapshot_is_greatest_match:
  "((\<exists>f \<in> set listing. glob_match (snapshot_pattern ticker version) f) \<longrightarrow>
      latest_snapshot_for_ticker glob_match listing raw_dir ticker version
        = Inr (joinpath raw_dir (Max (set (filter (glob_match (snapshot_pattern ticker version)) listing)))))
   \<and> ((\<exists>f \<in> set listing. glob_match (snapshot_pattern ticker version) f) \<and> set listing' = set listing \<longrightarrow>
      latest_snapshot_for_ticker glob_match listing' raw_dir ticker version
        = latest_snapshot_for_ticker glob_match listing raw_dir ticker version)
   \<and> (set (filter (glob_match (snapshot_pattern ticker version)) listing)
         = {ticker @ ''_raw_'' @ version @ ''_'' @ T1 @ ''.csv'',
            ticker @ ''_raw_'' @ version @ ''_'' @ T2 @ ''.csv'',
            ticker @ ''_raw_'' @ version @ ''_'' @ T3 @ ''.csv''}
       \<and> T1 < T2 \<and> T2 < T3 \<and> length T1 = length T2 \<and> length T2 = length T3 \<longrightarrow>
      latest_snapshot_for_ticker glob_match listing raw_dir ticker version
        = Inr (joinpath raw_dir (ticker @ ''_raw_'' @ version @ ''_'' @ T3 @ ''.csv'')))"
proof (intro conjI impI)
  assume "\<exists>f \<in> set listing. glob_match (snapshot_pattern ticker version) f"
  then have "filter (glob_match (snapshot_pattern ticker version)) listing \<noteq> []"
    by (simp add: filter_empty_conv)
  then show "latest_snapshot_for_ticker glob_match listing raw_dir ticker version
        = Inr (joinpath raw_dir (Max (set (filter (glob_match (snapshot_pattern ticker version)) listing))))"
    by (rule latest_snapshot_unfold)
next
  assume a: "(\<exists>f \<in> set listing. glob_match (snapshot_pattern ticker version) f) \<and> set listing' = set listing"
  then have n1: "filter (glob_match (snapshot_pattern ticker version)) listing \<noteq> []"
    and n2: "filter (glob_match (snapshot_pattern ticker version)) listing' \<noteq> []"
    by (simp_all add: filter_empty_conv)
  have "set (filter (glob_match (snapshot_pattern ticker version)) listing')
          = set (filter (glob_match (snapshot_pattern ticker version)) listing)"
    using a by simp
  then show "latest_snapshot_for_ticker glob_match listing' raw_dir ticker version
        = latest_snapshot_for_ticker glob_match listing raw_dir ticker version"
    using latest_snapshot_unfold [of glob_match ticker version listing raw_dir, OF n1]
          latest_snapshot_unfold [of glob_match ticker version listing' raw_dir, OF n2]
    by simp
next
  let ?n = "\<lambda>T. ticker @ ''_raw_'' @ version @ ''_'' @ T @ ''.csv''"
  assume a: "set (filter (glob_match (snapshot_pattern ticker version)) listing) = {?n T1, ?n T2, ?n T3}
       \<and> T1 < T2 \<and> T2 < T3 \<and> length T1 = length T2 \<and> length T2 = length T3"
  then have ne: "filter (glob_match (snapshot_pattern ticker version)) listing \<noteq> []"
    by (metis empty_set insert_not_empty)
  have l12: "?n T1 < ?n T2"
    using a stamped_name_less [of T1 T2 "ticker @ ''_raw_'' @ version @ ''_''" "''.csv''"] by simp
  have l23: "?n T2 < ?n T3"
    using a stamped_name_less [of T2 T3 "ticker @ ''_raw_'' @ version @ ''_''" "''.csv''"] by simp
  have "Max {?n T1, ?n T2, ?n T3} = ?n T3"
    using l12 l23 by (intro Max_eqI) auto
  then show "latest_snapshot_for_ticker glob_match listing raw_dir ticker version = Inr (joinpath raw_dir (?n T3))"
    using a latest_snapshot_unfold [of glob_match ticker version listing raw_dir, OF ne] by simp
qed

theorem latest_snapshot_is_greatest_match_witness:
  "(\<exists>f \<in> set sample_listing. wildcard_match (snapshot_pattern ''SPY'' ''v1'') f)
   \<and> set (rev sample_listing) = set sample_listing
   \<and> set (filter (wildcard_match (snapshot_pattern ''SPY'' ''v1'')) sample_listing)
         = {''SPY'' @ ''_raw_'' @ ''v1'' @ ''_'' @ ''20231231_235959'' @ ''.csv'',
            ''SPY'' @ ''_raw_'' @ ''v1'' @ ''_'' @ ''20240102_030405'' @ ''.csv'',
            ''SPY'' @ ''_raw_'' @ ''v1'' @ ''_'' @ ''20240301_000000'' @ ''.csv''}
   \<and> ''20231231_235959'' < ''20240102_030405'' \<and> ''20240102_030405'' < ''20240301_000000''
   \<and> latest_snapshot_for_ticker wildcard_match sample_listing ''raw'' ''SPY'' ''v1''
        = Inr ''raw/SPY_raw_v1_20240301_000000.csv''
   \<and> latest_snapshot_for_ticker wildcard_match (rev sample_listing) ''raw'' ''SPY'' ''v1''
        = Inr ''raw/SPY_raw_v1_20240301_000000.csv''
   \<and> Max (set (filter (wildcard_match (snapshot_pattern ''SPY'' ''v1'')) sample_listing))
        = ''SPY_raw_v1_20240301_000000.csv''"
  using latest_snapshot_is_greatest_match
          [where glob_match = wildcard_match and listing = sample_listing and listing' = "rev sample_listing"
             and raw_dir = "''raw''" and ticker = "''SPY''" and version = "''v1''"
             and ?T1.0 = "''20231231_235959''" and ?T2.0 = "''20240102_030405''" and ?T3.0 = "''20240301_000000''"]
  by (simp add: sample_listing_def snapshot_pattern_def joinpath_def insert_commute)

section \<open>Saving and loading\<close>









section \<open>Cleaning: the table returned\<close>

subsection \<open>Cells and columns\<close>

lemma cell_at_put: "cell_at (put r i v) j = (if j = i then v else cell_at r j)"
  by (auto simp: cell_at_def put_def nth_list_update nth_append)

lemma length_write_col: "length (write_col i vals rs) = min (length rs) (length vals)"
  by (simp add: write_col_def)

lemma col_at_write_col:
  "length vals = length rs \<Longrightarrow> col_at j (write_col i vals rs) = (if j = i then vals else col_at j rs)"
proof (induction rs arbitrary: vals)
  case Nil
  then show ?case by (simp add: col_at_def write_col_def)
next
  case (Cons r rs)
  then obtain v vs where "vals = v # vs" by (cases vals) auto
  with Cons show ?case
    by (auto simp: col_at_def write_col_def cell_at_put)
qed

lemma write_col_replicate: "write_col i (replicate (length rs) v) rs = map (\<lambda>r. put r i v) rs"
  by (induction rs) (simp_all add: write_col_def)

lemma col_at_filter: "col_at j (filter P rs) = map (\<lambda>r. cell_at r j) (filter P rs)"
  by (simp add: col_at_def)

subsection \<open>Positions of a label\<close>

lemma set_positions: "set (positions cs c) = {i. i < length cs \<and> cs ! i = c}"
  by (auto simp: positions_def)

lemma positions_empty: "(positions cs c = []) = (c \<notin> set cs)"
  by (auto simp: positions_def filter_empty_conv in_set_conv_nth)

lemma positions_snoc:
  "positions (cs @ [c']) c = positions cs c @ (if c' = c then [length cs] else [])"
proof -
  have "filter (\<lambda>i. (cs @ [c']) ! i = c) [0..<length cs] = filter (\<lambda>i. cs ! i = c) [0..<length cs]"
    by (rule filter_cong) (simp_all add: nth_append)
  then show ?thesis by (simp add: positions_def)
qed

lemma positions_append_fresh: "c \<notin> set ds \<Longrightarrow> positions (cs @ ds) c = positions cs c"
proof (induction ds rule: rev_induct)
  case Nil
  show ?case by simp
next
  case (snoc d ds)
  then show ?case
    using positions_snoc [of "cs @ ds" d c] by auto
qed

lemma positions_bound: "i \<in> set (positions cs c) \<Longrightarrow> i < length cs"
  by (simp add: set_positions)

lemma positions_single_bound: "positions cs c = [i] \<Longrightarrow> i < length cs \<and> cs ! i = c"
  using set_positions [of cs c] by auto

lemma positions_differ: "positions cs c = [i] \<Longrightarrow> positions cs d = [j] \<Longrightarrow> c \<noteq> d \<Longrightarrow> i \<noteq> j"
  using positions_single_bound by blast

lemma positions_new:
  "c \<notin> set cs \<Longrightarrow> distinct (c # ds) \<Longrightarrow> positions (cs @ c # ds) c = [length cs]"
proof -
  assume a: "c \<notin> set cs" "distinct (c # ds)"
  have "positions (cs @ c # ds) c = positions ((cs @ [c]) @ ds) c" by simp
  also have "\<dots> = positions (cs @ [c]) c"
    using a by (intro positions_append_fresh) simp
  also have "\<dots> = [length cs]"
    using a positions_empty [of cs c] by (simp add: positions_snoc)
  finally show ?thesis .
qed

subsection \<open>Filling the schema and projecting\<close>

lemma cell_at_fold_put:
  "cell_at (fold (\<lambda>j r. put r j None) js r) i = (if i \<in> set js then None else cell_at r i)"
  by (induction js arbitrary: r) (auto simp: cell_at_put)

lemma cell_at_pad: "cell_at (pad n m r) i = (if n \<le> i \<and> i < m then None else cell_at r i)"
  by (simp add: pad_def cell_at_fold_put)

lemma pad_step: "n < m \<Longrightarrow> pad (Suc n) m (put r n None) = pad n m r"
  by (simp add: pad_def upt_conv_Cons)

lemma pad_same: "pad n n r = r"
  by (simp add: pad_def)

lemma set_scalar_new:
  "c \<notin> set (columns df) \<Longrightarrow>
   set_scalar df c v = \<lparr>columns = columns df @ [c], rows = map (\<lambda>r. put r (length (columns df)) v) (rows df)\<rparr>"
  by (simp add: set_scalar_def assign_def write_col_replicate)

lemma ensure_schema_form:
  "distinct cs \<Longrightarrow>
   ensure_schema cs df =
     \<lparr>columns = columns df @ filter (\<lambda>c. c \<notin> set (columns df)) cs,
      rows = map (pad (length (columns df)) (length (columns df @ filter (\<lambda>c. c \<notin> set (columns df)) cs))) (rows df)\<rparr>"
proof (induction cs arbitrary: df)
  case Nil
  show ?case by (simp add: pad_same)
next
  case (Cons c cs)
  show ?case
  proof (cases "c \<in> set (columns df)")
    case True
    with Cons show ?thesis by simp
  next
    case False
    have eq: "filter (\<lambda>x. x \<noteq> c \<and> x \<notin> set (columns df)) cs = filter (\<lambda>x. x \<notin> set (columns df)) cs"
      using Cons.prems by (intro filter_cong) auto
    show ?thesis
      using False Cons.prems
      by (simp add: Cons.IH set_scalar_new eq pad_step o_def)
  qed
qed


lemma concat_singletons:
  "(\<And>c. c \<in> set ds \<Longrightarrow> \<exists>q. f c = [q] \<and> g q = h c) \<Longrightarrow> map g (concat (map f ds)) = map h ds"
proof (induction ds)
  case Nil
  show ?case by simp
next
  case (Cons d ds)
  from Cons.prems [of d] obtain q where "f d = [q]" "g q = h d" by auto
  moreover have "map g (concat (map f ds)) = map h ds"
    using Cons.prems by (intro Cons.IH) simp
  ultimately show ?case by simp
qed

lemma cell_under_single: "positions cols c = [i] \<Longrightarrow> cell_under cols r c = cell_at r i"
  by (simp add: cell_under_def)

lemma cell_under_absent: "c \<notin> set cols \<Longrightarrow> cell_under cols r c = None"
  using positions_empty [of cols c] by (simp add: cell_under_def)

lemma filled_position:
  assumes "distinct cs" and "c \<in> set cs" and "length (positions cols c) \<le> 1"
  shows "\<exists>q. positions (cols @ filter (\<lambda>c. c \<notin> set cols) cs) c = [q]
            \<and> (\<forall>r. cell_at (pad (length cols) (length (cols @ filter (\<lambda>c. c \<notin> set cols) cs)) r) q
                     = cell_under cols r c)"
proof (cases "c \<in> set cols")
  case True
  then have "positions cols c \<noteq> []" by (simp add: positions_empty)
  with assms(3) obtain i where i: "positions cols c = [i]"
    by (cases "positions cols c") auto
  then have "i < length cols" using positions_single_bound by blast
  moreover have "positions (cols @ filter (\<lambda>c. c \<notin> set cols) cs) c = [i]"
    using True i by (simp add: positions_append_fresh)
  ultimately show ?thesis
    using i by (auto simp: cell_at_pad cell_under_single)
next
  case False
  let ?miss = "filter (\<lambda>c. c \<notin> set cols) cs"
  have "c \<in> set ?miss" using False assms(2) by simp
  then obtain xs ys where split: "?miss = xs @ c # ys"
    by (meson split_list)
  have "distinct ?miss" using assms(1) by simp
  then have d: "c \<notin> set xs" "distinct (c # ys)"
    by (simp_all add: split)
  have "positions ((cols @ xs) @ c # ys) c = [length (cols @ xs)]"
    using False d by (intro positions_new) simp_all
  then have p: "positions (cols @ ?miss) c = [length cols + length xs]"
    by (simp add: split)
  have "length cols + length xs < length (cols @ ?miss)"
    by (simp add: split)
  then show ?thesis
    using p False by (auto simp: cell_at_pad cell_under_absent)
qed

lemma fill_and_project:
  fixes df :: "'v frame"
  assumes "distinct cs" and "\<forall>c \<in> set cs. length (positions (columns df) c) \<le> 1"
  shows "select_columns (ensure_schema cs df) cs
           = Inr \<lparr>columns = cs, rows = map (\<lambda>r. map (cell_under (columns df) r) cs) (rows df)\<rparr>"
proof -
  let ?cols = "columns df"
  let ?cols' = "?cols @ filter (\<lambda>c. c \<notin> set ?cols) cs"
  let ?pad = "pad (length ?cols) (length ?cols')"
  have pos: "\<exists>q. positions ?cols' c = [q] \<and> (\<forall>r. cell_at (?pad r) q = cell_under ?cols r c)"
    if "c \<in> set cs" for c and r :: "'v cell list"
    using assms that by (intro filled_position) auto
  have sub: "set cs \<subseteq> set ?cols'" by auto
  have "map (\<lambda>q. q) (concat (map (\<lambda>c. map (\<lambda>_. c) (positions ?cols' c)) cs)) = map (\<lambda>c. c) cs"
  proof (rule concat_singletons)
    fix c assume "c \<in> set cs"
    with pos obtain q where "positions ?cols' c = [q]" by blast
    then show "\<exists>q. map (\<lambda>_. c) (positions ?cols' c) = [q] \<and> q = c" by simp
  qed
  then have cols: "concat (map (\<lambda>c. map (\<lambda>_. c) (positions ?cols' c)) cs) = cs" by simp
  have row: "map (cell_at (?pad r)) (concat (map (positions ?cols') cs)) = map (cell_under ?cols r) cs"
    for r :: "'v cell list"
  proof (rule concat_singletons)
    fix c assume "c \<in> set cs"
    with pos show "\<exists>q. positions ?cols' c = [q] \<and> cell_at (?pad r) q = cell_under ?cols r c" by blast
  qed
  show ?thesis
    using sub cols row by (simp add: ensure_schema_form [OF assms(1)] select_columns_def o_def)
qed

subsection \<open>The stages of the cleaning\<close>

lemma and_then_Inr: "(and_then m f = Inr y) = (\<exists>x. m = Inr x \<and> f x = Inr y)"
  by (cases m) (simp_all add: and_then_def)

lemma select_column_Some:
  "(select_column df c = Some s) = (\<exists>i. positions (columns df) c = [i] \<and> s = col_at i (rows df))"
  by (auto simp: select_column_def split: list.splits)

lemma length_col_at: "length (col_at i rs) = length rs"
  by (simp add: col_at_def)

lemma assign_single:
  "positions (columns df) c = [i] \<Longrightarrow> assign df c vals = df\<lparr>rows := write_col i vals (rows df)\<rparr>"
  using positions_empty [of "columns df" c] by (auto simp: assign_def)

lemma assign_new:
  "c \<notin> set (columns df) \<Longrightarrow>
   assign df c vals = \<lparr>columns = columns df @ [c], rows = write_col (length (columns df)) vals (rows df)\<rparr>"
  by (simp add: assign_def)

lemma set_column_Inr:
  "(set_column df c vals = Inr df') = (length vals = length (rows df) \<and> df' = assign df c vals)"
  by (auto simp: set_column_def)

lemma sort_values_Inr:
  "(sort_values df cs = Inr df') =
     ((\<forall>c \<in> set cs. length (positions (columns df) c) = 1)
      \<and> df' = df\<lparr>rows := sort_key (sort_key_of (concat (map (positions (columns df)) cs))) (rows df)\<rparr>)"
  by (auto simp: sort_values_def)

lemma ensure_adj_close_Inr:
  assumes "ensure_adj_close df = Inr df'"
  shows "((''Adj_Close'' \<in> set (columns df) \<or> ''Close'' \<notin> set (columns df)) \<and> df' = df)
       \<or> (''Adj_Close'' \<notin> set (columns df)
           \<and> (\<exists>i. positions (columns df) ''Close'' = [i]
                 \<and> df' = \<lparr>columns = columns df @ [''Adj_Close''],
                          rows = write_col (length (columns df)) (col_at i (rows df)) (rows df)\<rparr>))"
proof (cases "''Adj_Close'' \<notin> set (columns df) \<and> ''Close'' \<in> set (columns df)")
  case False
  with assms show ?thesis by (auto simp: ensure_adj_close_def)
next
  case True
  with assms obtain s where s: "select_column df ''Close'' = Some s"
    and d: "set_column df ''Adj_Close'' s = Inr df'"
    by (auto simp: ensure_adj_close_def split: option.splits)
  from s obtain i where i: "positions (columns df) ''Close'' = [i]" "s = col_at i (rows df)"
    by (auto simp: select_column_Some)
  from d True have "df' = \<lparr>columns = columns df @ [''Adj_Close''],
                          rows = write_col (length (columns df)) s (rows df)\<rparr>"
    by (simp add: set_column_Inr assign_new)
  with True i show ?thesis by auto
qed

lemma parse_dates_Inr:
  assumes "parse_dates to_datetime df = Inr df'"
  shows "\<exists>i. positions (columns df) ''Date'' = [i]
            \<and> length (to_datetime (col_at i (rows df))) = length (rows df)
            \<and> df' = df\<lparr>rows := filter (\<lambda>r. cell_at r i \<noteq> None)
                                  (write_col i (to_datetime (col_at i (rows df))) (rows df))\<rparr>"
proof -
  from assms obtain s df1 where s: "select_column df ''Date'' = Some s"
    and d: "set_column df ''Date'' (to_datetime s) = Inr df1" and e: "df' = dropna df1 ''Date''"
    by (auto simp: parse_dates_def and_then_Inr split: option.splits)
  from s obtain i where i: "positions (columns df) ''Date'' = [i]" "s = col_at i (rows df)"
    by (auto simp: select_column_Some)
  from d i have l: "length (to_datetime (col_at i (rows df))) = length (rows df)"
    and df1: "df1 = df\<lparr>rows := write_col i (to_datetime (col_at i (rows df))) (rows df)\<rparr>"
    by (simp_all add: set_column_Inr assign_single)
  have "df' = df\<lparr>rows := filter (\<lambda>r. cell_at r i \<noteq> None)
                                  (write_col i (to_datetime (col_at i (rows df))) (rows df))\<rparr>"
    by (simp add: e df1 dropna_def i)
  with i l show ?thesis by blast
qed

lemma coerce_numerics_Inr:
  assumes "coerce_numerics to_numeric cs df = Inr df'" and "distinct cs"
  shows "columns df' = columns df \<and> length (rows df') = length (rows df)
       \<and> (\<forall>c \<in> set cs. length (positions (columns df) c) \<le> 1)
       \<and> (\<forall>c \<in> set cs. \<forall>i. positions (columns df) c = [i] \<longrightarrow>
             col_at i (rows df') = to_numeric (col_at i (rows df)))
       \<and> (\<forall>j. (\<forall>c \<in> set cs. j \<notin> set (positions (columns df) c)) \<longrightarrow>
             col_at j (rows df') = col_at j (rows df))"
  using assms
proof (induction cs arbitrary: df)
  case Nil
  then show ?case by simp
next
  case (Cons c cs)
  show ?case
  proof (cases "c \<in> set (columns df)")
    case False
    then have p: "positions (columns df) c = []" by (simp add: positions_empty)
    from False Cons.prems have "coerce_numerics to_numeric cs df = Inr df'" "distinct cs" by simp_all
    from Cons.IH [OF this] show ?thesis by (simp add: p)
  next
    case True
    with Cons.prems obtain s df1 where s: "select_column df c = Some s"
      and d: "set_column df c (to_numeric s) = Inr df1"
      and rest: "coerce_numerics to_numeric cs df1 = Inr df'"
      by (auto simp: and_then_Inr split: option.splits)
    from s obtain i where i: "positions (columns df) c = [i]" and s': "s = col_at i (rows df)"
      by (auto simp: select_column_Some)
    from d i s' have l: "length (to_numeric (col_at i (rows df))) = length (rows df)"
      and df1: "df1 = df\<lparr>rows := write_col i (to_numeric (col_at i (rows df))) (rows df)\<rparr>"
      by (simp_all add: set_column_Inr assign_single)
    have cols1: "columns df1 = columns df" by (simp add: df1)
    have col1: "col_at j (rows df1) = (if j = i then to_numeric (col_at i (rows df)) else col_at j (rows df))" for j
      by (simp add: df1 col_at_write_col l)
    have len1: "length (rows df1) = length (rows df)"
      by (simp add: df1 length_write_col l)
    from Cons.prems have dc: "distinct cs" "c \<notin> set cs" by simp_all
    have ih: "columns df' = columns df1 \<and> length (rows df') = length (rows df1)
       \<and> (\<forall>c \<in> set cs. length (positions (columns df1) c) \<le> 1)
       \<and> (\<forall>c \<in> set cs. \<forall>i. positions (columns df1) c = [i] \<longrightarrow>
             col_at i (rows df') = to_numeric (col_at i (rows df1)))
       \<and> (\<forall>j. (\<forall>c \<in> set cs. j \<notin> set (positions (columns df1) c)) \<longrightarrow>
             col_at j (rows df') = col_at j (rows df1))"
      using rest dc(1) by (rule Cons.IH)
    from ih have ih1: "columns df' = columns df" and ih2: "length (rows df') = length (rows df1)"
      and ih3: "\<forall>c \<in> set cs. length (positions (columns df) c) \<le> 1"
      unfolding cols1 by blast+
    from ih have ih4: "col_at i' (rows df') = to_numeric (col_at i' (rows df1))"
      if "c' \<in> set cs" "positions (columns df) c' = [i']" for c' i'
      using that unfolding cols1 by blast
    from ih have ih5: "col_at j (rows df') = col_at j (rows df1)"
      if "\<forall>c \<in> set cs. j \<notin> set (positions (columns df) c)" for j
      using that unfolding cols1 by blast
    have away: "i \<notin> set (positions (columns df) c')" if "c' \<in> set cs" for c'
    proof
      assume "i \<in> set (positions (columns df) c')"
      then have "columns df ! i = c'" by (simp add: set_positions)
      moreover have "columns df ! i = c" using i positions_single_bound by blast
      ultimately show False using that dc(2) by simp
    qed
    have a: "col_at i (rows df') = to_numeric (col_at i (rows df))"
    proof -
      have "col_at i (rows df') = col_at i (rows df1)"
        using away by (intro ih5) blast
      then show ?thesis by (simp add: col1)
    qed
    have b: "col_at i' (rows df') = to_numeric (col_at i' (rows df))"
      if "c' \<in> set cs" "positions (columns df) c' = [i']" for c' i'
    proof -
      have "i' \<noteq> i" using away [OF that(1)] that(2) by auto
      moreover have "col_at i' (rows df') = to_numeric (col_at i' (rows df1))"
        using that by (rule ih4)
      ultimately show ?thesis by (simp add: col1)
    qed
    have c: "col_at j (rows df') = col_at j (rows df)"
      if "\<forall>c' \<in> set (c # cs). j \<notin> set (positions (columns df) c')" for j
    proof -
      have "j \<noteq> i" using that i by auto
      moreover have "col_at j (rows df') = col_at j (rows df1)"
        using that by (intro ih5) simp
      ultimately show ?thesis by (simp add: col1)
    qed
    show ?thesis
    proof (intro conjI ballI allI impI)
      show "columns df' = columns df" by (rule ih1)
      show "length (rows df') = length (rows df)" using ih2 len1 by simp
    next
      fix c' assume "c' \<in> set (c # cs)"
      then have "c' = c \<or> c' \<in> set cs" by simp
      then show "length (positions (columns df) c') \<le> 1"
        using i ih3 by (elim disjE) simp_all
    next
      fix c' i' assume m: "c' \<in> set (c # cs)" and p: "positions (columns df) c' = [i']"
      from m have "c' = c \<or> c' \<in> set cs" by simp
      then show "col_at i' (rows df') = to_numeric (col_at i' (rows df))"
      proof
        assume "c' = c"
        with p i have "i' = i" by simp
        with a show ?thesis by simp
      next
        assume "c' \<in> set cs"
        then show ?thesis using p by (rule b)
      qed
    next
      fix j assume "\<forall>c' \<in> set (c # cs). j \<notin> set (positions (columns df) c')"
      then show "col_at j (rows df') = col_at j (rows df)" by (rule c)
    qed
  qed
qed

subsection \<open>Dropping duplicates and sorting\<close>

lemma set_keep_first: "set (keep_first key seen rs) \<subseteq> set rs"
  by (induction rs arbitrary: seen) auto

lemma keep_first_fresh: "r \<in> set (keep_first key seen rs) \<Longrightarrow> key r \<notin> set seen"
proof (induction rs arbitrary: seen)
  case Nil
  then show ?case by simp
next
  case (Cons x rs)
  show ?case
  proof (cases "key x \<in> set seen")
    case True
    with Cons.prems have "r \<in> set (keep_first key seen rs)" by simp
    then show ?thesis by (rule Cons.IH)
  next
    case False
    with Cons.prems have "r = x \<or> r \<in> set (keep_first key (key x # seen) rs)" by simp
    then show ?thesis
    proof
      assume "r = x"
      with False show ?thesis by simp
    next
      assume "r \<in> set (keep_first key (key x # seen) rs)"
      then have "key r \<notin> set (key x # seen)" by (rule Cons.IH)
      then show ?thesis by simp
    qed
  qed
qed

lemma distinct_keep_first: "distinct (map key (keep_first key seen rs))"
proof (induction rs arbitrary: seen)
  case Nil
  show ?case by simp
next
  case (Cons r rs)
  have "key r \<notin> key ` set (keep_first key (key r # seen) rs)"
  proof
    assume "key r \<in> key ` set (keep_first key (key r # seen) rs)"
    then obtain x where x: "x \<in> set (keep_first key (key r # seen) rs)" and k: "key x = key r"
      by auto
    from x have "key x \<notin> set (key r # seen)" by (rule keep_first_fresh)
    with k show False by simp
  qed
  with Cons show ?case by simp
qed

lemma keep_first_id:
  "distinct (map key rs) \<Longrightarrow> key ` set rs \<inter> set seen = {} \<Longrightarrow> keep_first key seen rs = rs"
proof (induction rs arbitrary: seen)
  case Nil
  show ?case by simp
next
  case (Cons r rs)
  from Cons.prems have "key r \<notin> set seen" by auto
  moreover have "keep_first key (key r # seen) rs = rs"
    using Cons.prems by (intro Cons.IH) auto
  ultimately show ?case by simp
qed

lemma rank_eq: "(rank a = rank b) = (a = b)"
  by (cases a; cases b) (simp_all add: rank_def)

lemma subset_key_indices:
  "set (filter (\<lambda>i. cols ! i \<in> set cs) [0..<length cols]) = (\<Union>c \<in> set cs. set (positions cols c))"
  by (auto simp: set_positions)

lemma subset_key_eq:
  assumes "positions cols ''Ticker'' = [iT]" and "positions cols ''Date'' = [iD]"
  shows "(subset_key cols [''Ticker'', ''Date''] r1 = subset_key cols [''Ticker'', ''Date''] r2)
           = (sort_key_of [iT, iD] r1 = sort_key_of [iT, iD] r2)"
proof -
  have "set (filter (\<lambda>i. cols ! i \<in> set [''Ticker'', ''Date'']) [0..<length cols]) = {iT, iD}"
    unfolding subset_key_indices using assms by auto
  then have "(subset_key cols [''Ticker'', ''Date''] r1 = subset_key cols [''Ticker'', ''Date''] r2)
           = (cell_at r1 iT = cell_at r2 iT \<and> cell_at r1 iD = cell_at r2 iD)"
    unfolding subset_key_def map_eq_conv by simp
  then show ?thesis by (simp add: sort_key_of_def rank_eq)
qed

lemma distinct_map_kernel:
  assumes "\<And>x y. (f x = f y) = (g x = g y)"
  shows "distinct (map f xs) = distinct (map g xs)"
  using assms by (simp add: distinct_map inj_on_def)

lemma distinct_map_sort_key: "distinct (map f (sort_key g xs)) = distinct (map f xs)"
  by (simp add: distinct_map)

subsection \<open>The steps of a run that returns\<close>

lemma clean_prices_steps:
  assumes "clean_prices to_datetime to_numeric df0 = Inr out"
  shows "\<exists>df2 df3 df4 df5.
           ''Ticker'' \<in> set (map standardise_name (columns df0))
         \<and> ''Date'' \<in> set (map standardise_name (columns df0))
         \<and> ensure_adj_close (df0\<lparr>columns := map standardise_name (columns df0)\<rparr>) = Inr df2
         \<and> parse_dates to_datetime df2 = Inr df3
         \<and> coerce_numerics to_numeric NUMERIC_COLUMNS df3 = Inr df4
         \<and> sort_values (drop_duplicates df4 [''Ticker'', ''Date'']) [''Ticker'', ''Date''] = Inr df5
         \<and> select_columns (ensure_schema REQUIRED_COLUMNS df5) REQUIRED_COLUMNS = Inr out"
proof -
  let ?df1 = "df0\<lparr>columns := map standardise_name (columns df0)\<rparr>"
  have t: "''Ticker'' \<in> set (map standardise_name (columns df0))"
    using assms by (cases "''Ticker'' \<in> set (map standardise_name (columns df0))")
                   (simp_all add: clean_prices_def Let_def)
  have d: "''Date'' \<in> set (map standardise_name (columns df0))"
    using assms t by (cases "''Date'' \<in> set (map standardise_name (columns df0))")
                   (simp_all add: clean_prices_def Let_def)
  have "and_then (ensure_adj_close ?df1) (\<lambda>df.
        and_then (parse_dates to_datetime df) (\<lambda>df.
        and_then (coerce_numerics to_numeric NUMERIC_COLUMNS df) (\<lambda>df.
        and_then (sort_values (drop_duplicates df [''Ticker'', ''Date'']) [''Ticker'', ''Date'']) (\<lambda>df.
        select_columns (ensure_schema REQUIRED_COLUMNS df) REQUIRED_COLUMNS)))) = Inr out"
    using assms t d by (simp add: clean_prices_def Let_def)
  then show ?thesis
    using t d unfolding and_then_Inr by blast
qed

lemma required_columns_split:
  "c \<in> set REQUIRED_COLUMNS \<Longrightarrow> c = ''Date'' \<or> c = ''Ticker'' \<or> c \<in> set NUMERIC_COLUMNS"
  by (auto simp: REQUIRED_COLUMNS_def NUMERIC_COLUMNS_def)

lemma distinct_required_columns: "distinct REQUIRED_COLUMNS"
  by (simp add: REQUIRED_COLUMNS_def)

lemma distinct_numeric_columns: "distinct NUMERIC_COLUMNS"
  by (simp add: NUMERIC_COLUMNS_def)

lemma date_not_numeric: "''Date'' \<notin> set NUMERIC_COLUMNS"
  by (simp add: NUMERIC_COLUMNS_def)

lemma col_at_mem: "r \<in> set rs \<Longrightarrow> cell_at r i \<in> set (col_at i rs)"
  by (simp add: col_at_def)

lemma col_at_eq_iff: "(col_at i rs = col_at j rs) = (\<forall>r \<in> set rs. cell_at r i = cell_at r j)"
  by (simp add: col_at_def)

lemma clean_prices_form:
  fixes df0 :: "('v::linorder) frame"
  assumes run: "clean_prices to_datetime to_numeric df0 = Inr out"
  shows "\<exists>cols rs iT iD.
           positions cols ''Ticker'' = [iT] \<and> positions cols ''Date'' = [iD]
         \<and> (\<forall>c \<in> set REQUIRED_COLUMNS. length (positions cols c) \<le> 1)
         \<and> out = \<lparr>columns = REQUIRED_COLUMNS,
                   rows = map (\<lambda>r. map (cell_under cols r) REQUIRED_COLUMNS)
                            (sort_key (sort_key_of [iT, iD])
                               (keep_first (subset_key cols [''Ticker'', ''Date'']) [] rs))\<rparr>
         \<and> (\<forall>r \<in> set rs. cell_at r iD \<noteq> None)
         \<and> (\<exists>s. \<forall>r \<in> set rs. cell_at r iD \<in> set (to_datetime s))
         \<and> (\<forall>c \<in> set NUMERIC_COLUMNS. \<exists>s. \<forall>r \<in> set rs. cell_under cols r c \<in> insert None (set (to_numeric s)))
         \<and> (''Close'' \<in> set (map standardise_name (columns df0))
              \<and> ''Adj_Close'' \<notin> set (map standardise_name (columns df0)) \<longrightarrow>
            (\<exists>iC iA. positions cols ''Close'' = [iC] \<and> positions cols ''Adj_Close'' = [iA]
                \<and> (\<forall>r \<in> set rs. cell_at r iA = cell_at r iC)))"
proof -
  let ?df1 = "df0\<lparr>columns := map standardise_name (columns df0)\<rparr>"
  from clean_prices_steps [OF run] obtain df2 df3 df4 df5 where
        adj: "ensure_adj_close ?df1 = Inr df2"
    and parse: "parse_dates to_datetime df2 = Inr df3"
    and coerce: "coerce_numerics to_numeric NUMERIC_COLUMNS df3 = Inr df4"
    and sort: "sort_values (drop_duplicates df4 [''Ticker'', ''Date'']) [''Ticker'', ''Date''] = Inr df5"
    and sel: "select_columns (ensure_schema REQUIRED_COLUMNS df5) REQUIRED_COLUMNS = Inr out"
    by blast
  let ?cols = "columns df2"
  \<comment> \<open>the dates\<close>
  from parse_dates_Inr [OF parse] obtain iD where
        pD: "positions ?cols ''Date'' = [iD]"
    and lD: "length (to_datetime (col_at iD (rows df2))) = length (rows df2)"
    and df3: "df3 = df2\<lparr>rows := filter (\<lambda>r. cell_at r iD \<noteq> None)
                                  (write_col iD (to_datetime (col_at iD (rows df2))) (rows df2))\<rparr>"
    by blast
  let ?W = "write_col iD (to_datetime (col_at iD (rows df2))) (rows df2)"
  have cols3: "columns df3 = ?cols" by (simp add: df3)
  have rows3: "rows df3 = filter (\<lambda>r. cell_at r iD \<noteq> None) ?W" by (simp add: df3)
  have colW: "col_at j ?W = (if j = iD then to_datetime (col_at iD (rows df2)) else col_at j (rows df2))" for j
    using lD by (rule col_at_write_col)
  \<comment> \<open>the numbers\<close>
  from coerce_numerics_Inr [OF coerce distinct_numeric_columns]
  have cols4: "columns df4 = ?cols"
    and one: "\<forall>c \<in> set NUMERIC_COLUMNS. length (positions ?cols c) \<le> 1"
    and num: "\<forall>c \<in> set NUMERIC_COLUMNS. \<forall>i. positions ?cols c = [i] \<longrightarrow>
                 col_at i (rows df4) = to_numeric (col_at i (rows df3))"
    and other: "\<forall>j. (\<forall>c \<in> set NUMERIC_COLUMNS. j \<notin> set (positions ?cols c)) \<longrightarrow>
                 col_at j (rows df4) = col_at j (rows df3)"
    unfolding cols3 by blast+
  \<comment> \<open>the sort\<close>
  from sort have uniq: "\<forall>c \<in> set [''Ticker'', ''Date'']. length (positions ?cols c) = 1"
    and df5: "df5 = (drop_duplicates df4 [''Ticker'', ''Date''])
                 \<lparr>rows := sort_key (sort_key_of (concat (map (positions ?cols) [''Ticker'', ''Date''])))
                            (rows (drop_duplicates df4 [''Ticker'', ''Date'']))\<rparr>"
    unfolding sort_values_Inr by (simp_all add: drop_duplicates_def cols4)
  from uniq obtain iT where pT: "positions ?cols ''Ticker'' = [iT]"
    by (cases "positions ?cols ''Ticker''") auto
  have cols5: "columns df5 = ?cols"
    by (simp add: df5 drop_duplicates_def cols4)
  have rows5: "rows df5 = sort_key (sort_key_of [iT, iD])
                            (keep_first (subset_key ?cols [''Ticker'', ''Date'']) [] (rows df4))"
    by (simp add: df5 drop_duplicates_def cols4 pT pD)
  \<comment> \<open>the schema\<close>
  have atmost: "\<forall>c \<in> set REQUIRED_COLUMNS. length (positions ?cols c) \<le> 1"
  proof
    fix c assume "c \<in> set REQUIRED_COLUMNS"
    then have "c = ''Date'' \<or> c = ''Ticker'' \<or> c \<in> set NUMERIC_COLUMNS"
      by (rule required_columns_split)
    then show "length (positions ?cols c) \<le> 1"
      using pD pT one by (elim disjE) simp_all
  qed
  have out: "out = \<lparr>columns = REQUIRED_COLUMNS,
                   rows = map (\<lambda>r. map (cell_under ?cols r) REQUIRED_COLUMNS)
                            (sort_key (sort_key_of [iT, iD])
                               (keep_first (subset_key ?cols [''Ticker'', ''Date'']) [] (rows df4)))\<rparr>"
    using sel atmost fill_and_project [of REQUIRED_COLUMNS df5, OF distinct_required_columns]
    by (simp add: cols5 rows5)
  \<comment> \<open>the cells of the date column\<close>
  have iD_other: "\<forall>c \<in> set NUMERIC_COLUMNS. iD \<notin> set (positions ?cols c)"
  proof
    fix c assume c: "c \<in> set NUMERIC_COLUMNS"
    show "iD \<notin> set (positions ?cols c)"
    proof
      assume "iD \<in> set (positions ?cols c)"
      then have "?cols ! iD = c" by (simp add: set_positions)
      moreover have "?cols ! iD = ''Date''" using pD positions_single_bound by blast
      ultimately show False using c date_not_numeric by simp
    qed
  qed
  have colD4: "col_at iD (rows df4) = col_at iD (rows df3)"
    using other iD_other by blast
  have date3: "cell_at r iD \<noteq> None \<and> cell_at r iD \<in> set (to_datetime (col_at iD (rows df2)))"
    if "r \<in> set (rows df3)" for r
  proof -
    from that have "r \<in> set ?W" and n: "cell_at r iD \<noteq> None" by (simp_all add: rows3)
    then have "cell_at r iD \<in> set (col_at iD ?W)" by (intro col_at_mem)
    with n show ?thesis by (simp add: colW)
  qed
  have date4: "cell_at r iD \<noteq> None \<and> cell_at r iD \<in> set (to_datetime (col_at iD (rows df2)))"
    if "r \<in> set (rows df4)" for r
  proof -
    from that have "cell_at r iD \<in> set (col_at iD (rows df4))" by (rule col_at_mem)
    then have "cell_at r iD \<in> set (col_at iD (rows df3))" by (simp add: colD4)
    then obtain r' where "r' \<in> set (rows df3)" "cell_at r iD = cell_at r' iD"
      by (auto simp: col_at_def)
    with date3 [of r'] show ?thesis by simp
  qed
  \<comment> \<open>the cells of the numeric columns\<close>
  have nums: "\<exists>s. \<forall>r \<in> set (rows df4). cell_under ?cols r c \<in> insert None (set (to_numeric s))"
    if c: "c \<in> set NUMERIC_COLUMNS" for c
  proof (cases "positions ?cols c")
    case Nil
    then show ?thesis by (simp add: cell_under_def)
  next
    case (Cons i tail)
    with one c have p: "positions ?cols c = [i]" by (cases tail) auto
    with num c have "col_at i (rows df4) = to_numeric (col_at i (rows df3))" by blast
    then have "\<forall>r \<in> set (rows df4). cell_under ?cols r c \<in> set (to_numeric (col_at i (rows df3)))"
      using col_at_mem [of _ "rows df4" i] by (simp add: cell_under_single [OF p])
    then show ?thesis by blast
  qed
  \<comment> \<open>the fallback for the adjusted close\<close>
  have fallback: "\<exists>iC iA. positions ?cols ''Close'' = [iC] \<and> positions ?cols ''Adj_Close'' = [iA]
                \<and> (\<forall>r \<in> set (rows df4). cell_at r iA = cell_at r iC)"
    if has: "''Close'' \<in> set (map standardise_name (columns df0))"
            "''Adj_Close'' \<notin> set (map standardise_name (columns df0))"
  proof -
    let ?cols1 = "map standardise_name (columns df0)"
    let ?n = "length ?cols1"
    from ensure_adj_close_Inr [OF adj] has obtain iC where
          pC1: "positions ?cols1 ''Close'' = [iC]"
      and df2: "df2 = \<lparr>columns = ?cols1 @ [''Adj_Close''],
                       rows = write_col ?n (col_at iC (rows df0)) (rows df0)\<rparr>"
      by auto
    have iCn: "iC < ?n" using pC1 positions_single_bound by fastforce
    have pC: "positions ?cols ''Close'' = [iC]"
      by (simp add: df2 positions_snoc pC1)
    have "positions ?cols1 ''Adj_Close'' = []"
      using has(2) by (simp add: positions_empty)
    then have pA: "positions ?cols ''Adj_Close'' = [?n]"
      by (simp add: df2 positions_snoc)
    have nD: "?n \<noteq> iD" using positions_differ [OF pA pD] by simp
    have cD: "iC \<noteq> iD" using positions_differ [OF pC pD] by simp
    have "col_at j (rows df2) = (if j = ?n then col_at iC (rows df0) else col_at j (rows df0))" for j
      by (simp add: df2 col_at_write_col length_col_at)
    then have "col_at ?n (rows df2) = col_at iC (rows df2)"
      using iCn by simp
    then have "col_at ?n ?W = col_at iC ?W"
      using nD cD by (simp add: colW)
    then have "\<forall>r \<in> set ?W. cell_at r ?n = cell_at r iC"
      by (simp add: col_at_eq_iff)
    then have "\<forall>r \<in> set (rows df3). cell_at r ?n = cell_at r iC"
      by (simp add: rows3)
    then have eq3: "col_at ?n (rows df3) = col_at iC (rows df3)"
      by (simp add: col_at_eq_iff)
    have "''Close'' \<in> set NUMERIC_COLUMNS" "''Adj_Close'' \<in> set NUMERIC_COLUMNS"
      by (simp_all add: NUMERIC_COLUMNS_def)
    with num pC pA have "col_at iC (rows df4) = to_numeric (col_at iC (rows df3))"
      and "col_at ?n (rows df4) = to_numeric (col_at ?n (rows df3))"
      by blast+
    then have "col_at ?n (rows df4) = col_at iC (rows df4)"
      using eq3 by simp
    then have "\<forall>r \<in> set (rows df4). cell_at r ?n = cell_at r iC"
      by (simp add: col_at_eq_iff)
    with pC pA show ?thesis by blast
  qed
  show ?thesis
  proof (intro exI conjI)
    show "positions ?cols ''Ticker'' = [iT]" by (rule pT)
    show "positions ?cols ''Date'' = [iD]" by (rule pD)
    show "\<forall>c \<in> set REQUIRED_COLUMNS. length (positions ?cols c) \<le> 1" by (rule atmost)
    show "out = \<lparr>columns = REQUIRED_COLUMNS,
                   rows = map (\<lambda>r. map (cell_under ?cols r) REQUIRED_COLUMNS)
                            (sort_key (sort_key_of [iT, iD])
                               (keep_first (subset_key ?cols [''Ticker'', ''Date'']) [] (rows df4)))\<rparr>"
      by (rule out)
    show "\<forall>r \<in> set (rows df4). cell_at r iD \<noteq> None" using date4 by blast
    show "\<forall>r \<in> set (rows df4). cell_at r iD \<in> set (to_datetime (col_at iD (rows df2)))"
      using date4 by blast
    show "\<forall>c \<in> set NUMERIC_COLUMNS. \<exists>s. \<forall>r \<in> set (rows df4).
            cell_under ?cols r c \<in> insert None (set (to_numeric s))"
      using nums by blast
    show "''Close'' \<in> set (map standardise_name (columns df0))
              \<and> ''Adj_Close'' \<notin> set (map standardise_name (columns df0)) \<longrightarrow>
            (\<exists>iC iA. positions ?cols ''Close'' = [iC] \<and> positions ?cols ''Adj_Close'' = [iA]
                \<and> (\<forall>r \<in> set (rows df4). cell_at r iA = cell_at r iC))"
      using fallback by blast
  qed
qed

lemma required_positions:
  "positions REQUIRED_COLUMNS ''Date'' = [0]"
  "positions REQUIRED_COLUMNS ''Open'' = [1]"
  "positions REQUIRED_COLUMNS ''High'' = [2]"
  "positions REQUIRED_COLUMNS ''Low'' = [3]"
  "positions REQUIRED_COLUMNS ''Close'' = [4]"
  "positions REQUIRED_COLUMNS ''Adj_Close'' = [5]"
  "positions REQUIRED_COLUMNS ''Volume'' = [6]"
  "positions REQUIRED_COLUMNS ''Ticker'' = [7]"
  by (simp_all add: positions_def REQUIRED_COLUMNS_def)

lemma projected_cells:
  "cell_at (map f REQUIRED_COLUMNS) 0 = f ''Date''"
  "cell_at (map f REQUIRED_COLUMNS) 1 = f ''Open''"
  "cell_at (map f REQUIRED_COLUMNS) 2 = f ''High''"
  "cell_at (map f REQUIRED_COLUMNS) 3 = f ''Low''"
  "cell_at (map f REQUIRED_COLUMNS) 4 = f ''Close''"
  "cell_at (map f REQUIRED_COLUMNS) 5 = f ''Adj_Close''"
  "cell_at (map f REQUIRED_COLUMNS) 6 = f ''Volume''"
  "cell_at (map f REQUIRED_COLUMNS) 7 = f ''Ticker''"
  by (simp_all add: cell_at_def REQUIRED_COLUMNS_def)

lemma length_required_columns: "length REQUIRED_COLUMNS = 8"
  by (simp add: REQUIRED_COLUMNS_def)

lemma projected_key:
  assumes "positions cols ''Ticker'' = [iT]" and "positions cols ''Date'' = [iD]"
  shows "ticker_date_key (map (cell_under cols r) REQUIRED_COLUMNS) = sort_key_of [iT, iD] r"
  by (simp add: ticker_date_key_def projected_cells sort_key_of_def
        cell_under_single [OF assms(1)] cell_under_single [OF assms(2)])


text \<open>
  C4. When the table has, after its column names have been standardised, a Close column
  and no Adj_Close column, the table \<open>clean_prices\<close> returns has in every row the same
  cell under Adj_Close as under Close, the coerced one.
\<close>

theorem clean_prices_adj_close_from_close:
  fixes df :: "('v::linorder) frame"
  assumes "''Close'' \<in> set (map standardise_name (columns df))"
    and "''Adj_Close'' \<notin> set (map standardise_name (columns df))"
    and "clean_prices to_datetime to_numeric df = Inr out"
  shows "select_column out ''Close'' = Some (col_at 4 (rows out))
       \<and> select_column out ''Adj_Close'' = Some (col_at 5 (rows out))
       \<and> col_at 5 (rows out) = col_at 4 (rows out)
       \<and> (\<forall>r \<in> set (rows out). cell_under (columns out) r ''Adj_Close'' = cell_under (columns out) r ''Close'')"
proof -
  from clean_prices_form [OF assms(3)] assms(1,2) obtain cols rs iT iD iC iA where
        out: "out = \<lparr>columns = REQUIRED_COLUMNS,
                   rows = map (\<lambda>r. map (cell_under cols r) REQUIRED_COLUMNS)
                            (sort_key (sort_key_of [iT, iD])
                               (keep_first (subset_key cols [''Ticker'', ''Date'']) [] rs))\<rparr>"
    and pC: "positions cols ''Close'' = [iC]" and pA: "positions cols ''Adj_Close'' = [iA]"
    and eq: "\<forall>r \<in> set rs. cell_at r iA = cell_at r iC"
    by blast
  let ?S = "sort_key (sort_key_of [iT, iD]) (keep_first (subset_key cols [''Ticker'', ''Date'']) [] rs)"
  have sub: "set ?S \<subseteq> set rs"
    using set_keep_first [of "subset_key cols [''Ticker'', ''Date'']" "[]" rs] by simp
  have cols: "columns out = REQUIRED_COLUMNS" by (simp add: out)
  have rows: "rows out = map (\<lambda>r. map (cell_under cols r) REQUIRED_COLUMNS) ?S" by (simp add: out)
  have cells: "cell_at r' 5 = cell_at r' 4" if "r' \<in> set (rows out)" for r'
  proof -
    from that obtain r where r: "r \<in> set ?S" and r': "r' = map (cell_under cols r) REQUIRED_COLUMNS"
      unfolding rows by auto
    from r sub eq have "cell_at r iA = cell_at r iC" by blast
    then show ?thesis
      by (simp add: r' projected_cells cell_under_single [OF pC] cell_under_single [OF pA])
  qed
  then have c54: "col_at 5 (rows out) = col_at 4 (rows out)"
    by (simp add: col_at_eq_iff)
  have sC: "select_column out ''Close'' = Some (col_at 4 (rows out))"
    by (simp add: select_column_def cols required_positions)
  have sA: "select_column out ''Adj_Close'' = Some (col_at 5 (rows out))"
    by (simp add: select_column_def cols required_positions)
  have u: "\<forall>r \<in> set (rows out). cell_under (columns out) r ''Adj_Close'' = cell_under (columns out) r ''Close''"
    using cells by (simp add: cols cell_under_def required_positions)
  from sC sA c54 u show ?thesis by blast
qed

subsection \<open>Cleaning a clean table\<close>

lemma put_same: "i < length r \<Longrightarrow> put r i (cell_at r i) = r"
  by (simp add: put_def cell_at_def)

lemma write_col_same: "\<forall>r \<in> set rs. i < length r \<Longrightarrow> write_col i (col_at i rs) rs = rs"
  by (induction rs) (simp_all add: write_col_def col_at_def put_same)

lemma standardise_required: "map standardise_name REQUIRED_COLUMNS = REQUIRED_COLUMNS"
  by (simp add: REQUIRED_COLUMNS_def standardise_name_def strip_def is_space_def)

lemma coerce_numerics_fixed:
  assumes "\<forall>c \<in> set cs. \<exists>j. positions (columns df) c = [j]
              \<and> to_numeric (col_at j (rows df)) = col_at j (rows df)
              \<and> (\<forall>r \<in> set (rows df). j < length r)"
  shows "coerce_numerics to_numeric cs df = Inr df"
  using assms
proof (induction cs)
  case Nil
  show ?case by simp
next
  case (Cons c cs)
  from Cons.prems obtain j where p: "positions (columns df) c = [j]"
    and f: "to_numeric (col_at j (rows df)) = col_at j (rows df)"
    and l: "\<forall>r \<in> set (rows df). j < length r"
    by auto
  have m: "c \<in> set (columns df)"
    using p positions_empty [of "columns df" c] by auto
  have s: "select_column df c = Some (col_at j (rows df))"
    by (simp add: select_column_def p)
  have "assign df c (col_at j (rows df)) = df"
    by (simp add: assign_single [OF p] write_col_same [OF l])
  then have w: "set_column df c (to_numeric (col_at j (rows df))) = Inr df"
    by (simp add: set_column_def f length_col_at)
  have "coerce_numerics to_numeric cs df = Inr df"
    using Cons.prems by (intro Cons.IH) simp
  then show ?case
    by (simp add: m s w and_then_def)
qed

lemma row_of_eight:
  assumes "length r = 8"
  shows "map (cell_under REQUIRED_COLUMNS r) REQUIRED_COLUMNS = r"
proof -
  from assms obtain a b c d e f g h where "r = [a, b, c, d, e, f, g, h]"
    by (auto simp: numeral_eq_Suc length_Suc_conv)
  then show ?thesis
    by (simp add: cell_under_def required_positions cell_at_def)
       (simp add: REQUIRED_COLUMNS_def cell_under_def required_positions [unfolded REQUIRED_COLUMNS_def] cell_at_def)
qed

lemma key_of_eight: "sort_key_of [7, 0] r = ticker_date_key r"
  by (simp add: sort_key_of_def ticker_date_key_def)

lemma clean_prices_fixed:
  fixes out :: "('v::linorder) frame"
  assumes cols: "columns out = REQUIRED_COLUMNS"
    and len: "\<forall>r \<in> set (rows out). length r = 8"
    and dates: "to_datetime (col_at 0 (rows out)) = col_at 0 (rows out)"
    and present: "\<forall>r \<in> set (rows out). cell_at r 0 \<noteq> None"
    and numbers: "\<forall>j \<in> {1, 2, 3, 4, 5, 6}. to_numeric (col_at j (rows out)) = col_at j (rows out)"
    and dist: "distinct (map ticker_date_key (rows out))"
    and sorted: "sorted (map ticker_date_key (rows out))"
  shows "clean_prices to_datetime to_numeric out = Inr out"
proof -
  have same: "out\<lparr>columns := map standardise_name (columns out)\<rparr> = out"
    by (simp add: cols standardise_required)
  have long: "\<forall>r \<in> set (rows out). j < length r" if "j < 8" for j
    using len that by simp
  have adj: "ensure_adj_close out = Inr out"
    by (simp add: ensure_adj_close_def cols REQUIRED_COLUMNS_def)
  have sD: "select_column out ''Date'' = Some (col_at 0 (rows out))"
    by (simp add: select_column_def cols required_positions)
  have "assign out ''Date'' (col_at 0 (rows out)) = out"
    using long [of 0] by (simp add: assign_single [of out "''Date''" 0] cols required_positions write_col_same)
  then have wD: "set_column out ''Date'' (to_datetime (col_at 0 (rows out))) = Inr out"
    by (simp add: set_column_def dates length_col_at)
  have "filter (\<lambda>r. cell_at r 0 \<noteq> None) (rows out) = rows out"
    using present by (simp add: filter_id_conv)
  then have dD: "dropna out ''Date'' = out"
    by (simp add: dropna_def cols required_positions)
  have parse: "parse_dates to_datetime out = Inr out"
    by (simp add: parse_dates_def sD wD dD and_then_def)
  have coerce: "coerce_numerics to_numeric NUMERIC_COLUMNS out = Inr out"
  proof (rule coerce_numerics_fixed)
    show "\<forall>c \<in> set NUMERIC_COLUMNS. \<exists>j. positions (columns out) c = [j]
              \<and> to_numeric (col_at j (rows out)) = col_at j (rows out)
              \<and> (\<forall>r \<in> set (rows out). j < length r)"
      using numbers len by (simp add: NUMERIC_COLUMNS_def cols required_positions)
  qed
  have "(subset_key REQUIRED_COLUMNS [''Ticker'', ''Date''] x = subset_key REQUIRED_COLUMNS [''Ticker'', ''Date''] y)
          = (ticker_date_key x = ticker_date_key y)" for x y :: "'v cell list"
    using subset_key_eq [of REQUIRED_COLUMNS 7 0 x y] by (simp add: required_positions key_of_eight)
  then have "distinct (map (subset_key REQUIRED_COLUMNS [''Ticker'', ''Date'']) (rows out))
               = distinct (map ticker_date_key (rows out))"
    by (rule distinct_map_kernel)
  with dist have "distinct (map (subset_key REQUIRED_COLUMNS [''Ticker'', ''Date'']) (rows out))"
    by simp
  then have "keep_first (subset_key REQUIRED_COLUMNS [''Ticker'', ''Date'']) [] (rows out) = rows out"
    by (intro keep_first_id) simp_all
  then have dedup: "drop_duplicates out [''Ticker'', ''Date''] = out"
    by (simp add: drop_duplicates_def cols)
  have "sort_key (sort_key_of [7, 0]) (rows out) = rows out"
    using sorted by (intro sort_key_id_if_sorted) (simp add: key_of_eight [abs_def])
  then have sort: "sort_values out [''Ticker'', ''Date''] = Inr out"
    by (simp add: sort_values_def cols required_positions)
  have one: "\<forall>c \<in> set REQUIRED_COLUMNS. length (positions (columns out) c) \<le> 1"
    by (simp add: cols REQUIRED_COLUMNS_def required_positions [unfolded REQUIRED_COLUMNS_def])
  have "map (\<lambda>r. map (cell_under REQUIRED_COLUMNS r) REQUIRED_COLUMNS) (rows out) = rows out"
    using len by (simp add: map_idI row_of_eight)
  then have proj: "select_columns (ensure_schema REQUIRED_COLUMNS out) REQUIRED_COLUMNS = Inr out"
    using fill_and_project [of REQUIRED_COLUMNS out, OF distinct_required_columns one] cols
    by simp
  have t: "''Ticker'' \<in> set REQUIRED_COLUMNS" and d: "''Date'' \<in> set REQUIRED_COLUMNS"
    by (simp_all add: REQUIRED_COLUMNS_def)
  show ?thesis
    unfolding clean_prices_def Let_def same
    using t d by (simp add: cols adj parse coerce dedup sort proj and_then_def)
qed

lemma stable_on_outputD:
  "stable_on_output f \<Longrightarrow> \<forall>y \<in> set ys. y \<in> insert None (set (f xs)) \<Longrightarrow> f ys = ys"
  unfolding stable_on_output_def by blast

text \<open>
  C2. Cleaning is idempotent: when \<open>clean_prices\<close> returns a table, cleaning that table
  returns it again, unchanged. The two parsers of the library are taken to leave alone
  what they have produced (dates stay dates, numbers stay numbers, missing stays missing).
\<close>

theorem clean_prices_idempotent:
  fixes df :: "('v::linorder) frame"
  assumes sd: "stable_on_output to_datetime" and sn: "stable_on_output to_numeric"
    and run: "clean_prices to_datetime to_numeric df = Inr out"
  shows "clean_prices to_datetime to_numeric out = Inr out"
proof -
  from clean_prices_form [OF run] obtain cols rs iT iD sD where
        pT: "positions cols ''Ticker'' = [iT]" and pD: "positions cols ''Date'' = [iD]"
    and out: "out = \<lparr>columns = REQUIRED_COLUMNS,
                   rows = map (\<lambda>r. map (cell_under cols r) REQUIRED_COLUMNS)
                            (sort_key (sort_key_of [iT, iD])
                               (keep_first (subset_key cols [''Ticker'', ''Date'']) [] rs))\<rparr>"
    and present: "\<forall>r \<in> set rs. cell_at r iD \<noteq> None"
    and dates: "\<forall>r \<in> set rs. cell_at r iD \<in> set (to_datetime sD)"
    and nums: "\<forall>c \<in> set NUMERIC_COLUMNS. \<exists>s. \<forall>r \<in> set rs. cell_under cols r c \<in> insert None (set (to_numeric s))"
    by blast
  let ?K = "keep_first (subset_key cols [''Ticker'', ''Date'']) [] rs"
  let ?S = "sort_key (sort_key_of [iT, iD]) ?K"
  have sub: "set ?S \<subseteq> set rs"
    using set_keep_first [of "subset_key cols [''Ticker'', ''Date'']" "[]" rs] by simp
  have cols: "columns out = REQUIRED_COLUMNS" by (simp add: out)
  have rows: "rows out = map (\<lambda>r. map (cell_under cols r) REQUIRED_COLUMNS) ?S" by (simp add: out)
  have len: "\<forall>r \<in> set (rows out). length r = 8"
    by (auto simp: rows length_required_columns)
  have keys: "map ticker_date_key (rows out) = map (sort_key_of [iT, iD]) ?S"
    by (simp add: rows o_def projected_key [OF pT pD])
  have "distinct (map (subset_key cols [''Ticker'', ''Date'']) ?K)"
    by (rule distinct_keep_first)
  then have "distinct (map (sort_key_of [iT, iD]) ?K)"
    using distinct_map_kernel [of "subset_key cols [''Ticker'', ''Date'']" "sort_key_of [iT, iD]" ?K]
          subset_key_eq [OF pT pD]
    by blast
  then have dist: "distinct (map ticker_date_key (rows out))"
    unfolding keys by (simp only: distinct_map_sort_key)
  have sorted: "sorted (map ticker_date_key (rows out))"
    unfolding keys by (rule sorted_sort_key)
  have col: "col_at j (rows out) = map (\<lambda>r. cell_at (map (cell_under cols r) REQUIRED_COLUMNS) j) ?S" for j
    by (simp add: rows col_at_def o_def)
  have col0: "col_at 0 (rows out) = map (\<lambda>r. cell_at r iD) ?S"
    by (simp add: col projected_cells cell_under_single [OF pD])
  have p0: "\<forall>r \<in> set (rows out). cell_at r 0 \<noteq> None"
  proof
    fix r' assume "r' \<in> set (rows out)"
    then have "cell_at r' 0 \<in> set (col_at 0 (rows out))" by (rule col_at_mem)
    then obtain r where "r \<in> set ?S" "cell_at r' 0 = cell_at r iD"
      unfolding col0 by auto
    with sub present show "cell_at r' 0 \<noteq> None" by auto
  qed
  have d0: "to_datetime (col_at 0 (rows out)) = col_at 0 (rows out)"
  proof (rule stable_on_outputD [OF sd])
    show "\<forall>y \<in> set (col_at 0 (rows out)). y \<in> insert None (set (to_datetime sD))"
      unfolding col0 using sub dates by auto
  qed
  have num: "to_numeric (col_at j (rows out)) = col_at j (rows out)"
    if c: "c \<in> set NUMERIC_COLUMNS"
      and j: "\<And>f :: string \<Rightarrow> 'v cell. cell_at (map f REQUIRED_COLUMNS) j = f c" for j c
  proof -
    from nums c obtain s where s: "\<forall>r \<in> set rs. cell_under cols r c \<in> insert None (set (to_numeric s))"
      by blast
    have cj: "col_at j (rows out) = map (\<lambda>r. cell_under cols r c) ?S"
      by (simp add: col j)
    show ?thesis
    proof (rule stable_on_outputD [OF sn])
      show "\<forall>y \<in> set (col_at j (rows out)). y \<in> insert None (set (to_numeric s))"
        unfolding cj using sub s by auto
    qed
  qed
  have n1: "to_numeric (col_at 1 (rows out)) = col_at 1 (rows out)"
    by (rule num [of "''Open''"]) (simp_all add: NUMERIC_COLUMNS_def cell_at_def REQUIRED_COLUMNS_def)
  have n2: "to_numeric (col_at 2 (rows out)) = col_at 2 (rows out)"
    by (rule num [of "''High''"]) (simp_all add: NUMERIC_COLUMNS_def projected_cells)
  have n3: "to_numeric (col_at 3 (rows out)) = col_at 3 (rows out)"
    by (rule num [of "''Low''"]) (simp_all add: NUMERIC_COLUMNS_def projected_cells)
  have n4: "to_numeric (col_at 4 (rows out)) = col_at 4 (rows out)"
    by (rule num [of "''Close''"]) (simp_all add: NUMERIC_COLUMNS_def projected_cells)
  have n5: "to_numeric (col_at 5 (rows out)) = col_at 5 (rows out)"
    by (rule num [of "''Adj_Close''"]) (simp_all add: NUMERIC_COLUMNS_def projected_cells)
  have n6: "to_numeric (col_at 6 (rows out)) = col_at 6 (rows out)"
    by (rule num [of "''Volume''"]) (simp_all add: NUMERIC_COLUMNS_def projected_cells)
  have numbers: "\<forall>j \<in> {1, 2, 3, 4, 5, 6}. to_numeric (col_at j (rows out)) = col_at j (rows out)"
    using n1 n2 n3 n4 n5 n6 by simp
  from cols len d0 p0 numbers dist sorted show ?thesis
    by (rule clean_prices_fixed)
qed

lemma sample_run: "clean_prices sample_parse sample_parse sample_raw = Inr sample_clean"
  by code_simp

lemma sample_parse_stable: "stable_on_output sample_parse"
  unfolding stable_on_output_def
proof (intro allI impI)
  fix xs ys :: "string cell list"
  assume sub: "set ys \<subseteq> insert None (set (sample_parse xs))"
  show "sample_parse ys = ys"
    unfolding sample_parse_def
  proof (rule map_idI)
    fix y assume "y \<in> set ys"
    with sub have "y = None \<or> y \<in> set (sample_parse xs)" by auto
    then show "(case y of None \<Rightarrow> None
                | Some s \<Rightarrow> if s \<noteq> [] \<and> list_all (\<lambda>ch. ch \<in> set ''0123456789-.'') s then Some s else None) = y"
      by (auto simp: sample_parse_def split: option.splits if_splits)
  qed
qed

theorem clean_prices_adj_close_from_close_witness:
  "''Close'' \<in> set (map standardise_name (columns sample_raw))
   \<and> ''Adj_Close'' \<notin> set (map standardise_name (columns sample_raw))
   \<and> clean_prices sample_parse sample_parse sample_raw = Inr sample_clean
   \<and> select_column sample_clean ''Close'' = Some [Some ''7'', None, Some ''3.5'', Some ''7'']
   \<and> select_column sample_clean ''Adj_Close'' = Some [Some ''7'', None, Some ''3.5'', Some ''7'']"
  using clean_prices_adj_close_from_close [of sample_raw sample_parse sample_parse sample_clean] sample_run
  by (simp add: sample_raw_def standardise_name_def strip_def is_space_def)
     (simp add: sample_clean_def col_at_def cell_at_def)

theorem clean_prices_idempotent_witness:
  "stable_on_output sample_parse
   \<and> clean_prices sample_parse sample_parse sample_raw = Inr sample_clean
   \<and> clean_prices sample_parse sample_parse sample_clean = Inr sample_clean"
  using clean_prices_idempotent [OF sample_parse_stable sample_parse_stable sample_run]
        sample_parse_stable sample_run
  by simp

subsection \<open>When the cleaning returns\<close>








section \<open>Downloading one ticker\<close>

lemma positions_Cons:
  "positions (c' # cs) c = (if c' = c then [0] else []) @ map Suc (positions cs c)"
proof -
  have "[0..<Suc (length cs)] = 0 # map Suc [0..<length cs]"
    by (simp add: upt_conv_Cons map_Suc_upt del: upt_Suc)
  then show ?thesis
    by (simp add: positions_def filter_map o_def del: upt_Suc)
qed

lemma length_fold_write_col:
  "length vals = length rs \<Longrightarrow> length (fold (\<lambda>i. write_col i vals) js rs) = length rs"
  by (induction js arbitrary: rs) (simp_all add: length_write_col)

lemma col_at_fold_write_col:
  "length vals = length rs \<Longrightarrow>
   col_at j (fold (\<lambda>i. write_col i vals) js rs) = (if j \<in> set js then vals else col_at j rs)"
proof (induction js arbitrary: rs)
  case Nil
  show ?case by simp
next
  case (Cons i js)
  have l: "length vals = length (write_col i vals rs)"
    using Cons.prems by (simp add: length_write_col)
  show ?case
    using Cons.prems by (simp add: Cons.IH [OF l] col_at_write_col)
qed

lemma col_at_assign:
  assumes "length vals = length (rows df)"
  shows "col_at j (rows (assign df c vals))
           = (if j \<in> set (positions (columns (assign df c vals)) c) then vals else col_at j (rows df))"
proof (cases "c \<in> set (columns df)")
  case True
  then show ?thesis
    using assms by (simp add: assign_def col_at_fold_write_col)
next
  case False
  then have "positions (columns df) c = []" by (simp add: positions_empty)
  then show ?thesis
    using False assms by (simp add: assign_def col_at_write_col positions_snoc)
qed

lemma columns_assign:
  "columns (assign df c vals) = columns df @ (if c \<in> set (columns df) then [] else [c])"
  by (simp add: assign_def)

lemma col_at_indexed: "col_at 0 (map (\<lambda>(i, r). i # r) es) = map fst es"
  by (induction es) (auto simp: col_at_def cell_at_def)

text \<open>
  C8. When the provider returns nothing or an empty table, the download ends with the
  ValueError \<open>No data returned for ticker\<close> (the spec's NoDataError). When it returns a
  table that is not empty, the download returns a table with the index (the dates) as
  its first column, under the name of the index, followed by the columns of the provider,
  and with a Ticker column that holds the input ticker in every row. The reply of
  \<open>yf.download\<close> is a table of prices indexed by its dates: the name of its index is not
  the label of one of its columns and is not Ticker.
\<close>

theorem download_stock_data_result:
  "(yf_download env ticker start end w = (Inr None, w1) \<longrightarrow>
      download_stock_data env ticker start end w
        = (Inl (ValueErr (''No data returned for ticker: '' @ ticker)), w1))
   \<and> (yf_download env ticker start end w = (Inr (Some df), w1) \<and> empty_frame df \<longrightarrow>
      download_stock_data env ticker start end w
        = (Inl (ValueErr (''No data returned for ticker: '' @ ticker)), w1))
   \<and> (yf_download env ticker start end w = (Inr (Some df), w1) \<and> \<not> empty_frame df
        \<and> index_label df \<notin> set (labels df) \<and> index_label df \<noteq> ''Ticker'' \<longrightarrow>
      (\<exists>out. download_stock_data env ticker start end w = (Inr out, w1)
         \<and> columns out = index_label df # labels df @ (if ''Ticker'' \<in> set (labels df) then [] else [''Ticker''])
         \<and> select_column out (index_label df) = Some (map fst (entries df))
         \<and> positions (columns out) ''Ticker'' \<noteq> []
         \<and> (\<forall>i \<in> set (positions (columns out) ''Ticker'').
               col_at i (rows out) = replicate (length (entries df)) (Some (cell_of_str env ticker)))))"
proof (intro conjI impI)
  assume "yf_download env ticker start end w = (Inr None, w1)"
  then show "download_stock_data env ticker start end w
        = (Inl (ValueErr (''No data returned for ticker: '' @ ticker)), w1)"
    by (simp add: download_stock_data_def)
next
  assume "yf_download env ticker start end w = (Inr (Some df), w1) \<and> empty_frame df"
  then show "download_stock_data env ticker start end w
        = (Inl (ValueErr (''No data returned for ticker: '' @ ticker)), w1)"
    by (simp add: download_stock_data_def)
next
  assume a: "yf_download env ticker start end w = (Inr (Some df), w1) \<and> \<not> empty_frame df
        \<and> index_label df \<notin> set (labels df) \<and> index_label df \<noteq> ''Ticker''"
  let ?f = "\<lparr>columns = index_label df # labels df, rows = map (\<lambda>(i, r). i # r) (entries df)\<rparr>"
  let ?vals = "replicate (length (entries df)) (Some (cell_of_str env ticker))"
  let ?out = "assign ?f ''Ticker'' ?vals"
  have run: "download_stock_data env ticker start end w = (Inr ?out, w1)"
    using a by (simp add: download_stock_data_def reset_index_def Let_def set_scalar_def)
  have len: "length ?vals = length (rows ?f)" by simp
  from a have "index_label df \<noteq> ''Ticker''" by blast
  then have ne: "''Ticker'' \<noteq> index_label df" by (rule not_sym)
  have cols: "columns ?out = index_label df # labels df @ (if ''Ticker'' \<in> set (labels df) then [] else [''Ticker''])"
    using ne by (simp add: columns_assign)
  have "positions (labels df) (index_label df) = []"
    using a by (simp add: positions_empty)
  then have pI: "positions (columns ?out) (index_label df) = [0]"
    using a ne by (simp add: cols positions_Cons positions_snoc)
  have "''Ticker'' \<in> set (columns ?out)"
    by (simp add: cols)
  then have pT: "positions (columns ?out) ''Ticker'' \<noteq> []"
    by (simp only: positions_empty) simp
  have "0 \<notin> set (positions (columns ?out) ''Ticker'')"
    using a ne by (simp add: cols positions_Cons)
  then have "col_at 0 (rows ?out) = col_at 0 (rows ?f)"
    using col_at_assign [OF len, of 0 "''Ticker''"] by simp
  then have idx: "select_column ?out (index_label df) = Some (map fst (entries df))"
    by (simp add: select_column_def pI col_at_indexed)
  have tick: "\<forall>i \<in> set (positions (columns ?out) ''Ticker''). col_at i (rows ?out) = ?vals"
    using col_at_assign [OF len, of _ "''Ticker''"] by simp
  from run cols idx pT tick
  show "\<exists>out. download_stock_data env ticker start end w = (Inr out, w1)
         \<and> columns out = index_label df # labels df @ (if ''Ticker'' \<in> set (labels df) then [] else [''Ticker''])
         \<and> select_column out (index_label df) = Some (map fst (entries df))
         \<and> positions (columns out) ''Ticker'' \<noteq> []
         \<and> (\<forall>i \<in> set (positions (columns out) ''Ticker'').
               col_at i (rows out) = replicate (length (entries df)) (Some (cell_of_str env ticker)))"
    by blast
qed

theorem download_stock_data_result_witness:
  "yf_download sample_env ''CCC'' ''2010-01-01'' ''2024-01-02'' sample_world = (Inr None, sample_world)
   \<and> download_stock_data sample_env ''CCC'' ''2010-01-01'' ''2024-01-02'' sample_world
       = (Inl (ValueErr ''No data returned for ticker: CCC''), sample_world)
   \<and> yf_download sample_env ''AAA'' ''2010-01-01'' ''2024-01-02'' sample_world = (Inr (Some sample_indexed), sample_world)
   \<and> \<not> empty_frame sample_indexed
   \<and> index_label sample_indexed \<notin> set (labels sample_indexed)
   \<and> index_label sample_indexed \<noteq> ''Ticker''
   \<and> download_stock_data sample_env ''AAA'' ''2010-01-01'' ''2024-01-02'' sample_world
       = (Inr \<lparr>columns = [''Date'', ''Open'', ''Close'', ''Ticker''],
               rows = [[Some ''2020-01-02'', Some ''1.0'', Some ''2.0'', Some ''AAA''],
                       [Some ''2020-01-03'', Some ''2.0'', Some ''3.5'', Some ''AAA'']]\<rparr>, sample_world)"
  using download_stock_data_result
          [where env = sample_env and ticker = "''CCC''" and start = "''2010-01-01''" and ?end = "''2024-01-02''"
             and w = sample_world and ?w1.0 = sample_world]
        download_stock_data_result
          [where env = sample_env and ticker = "''AAA''" and start = "''2010-01-01''" and ?end = "''2024-01-02''"
             and w = sample_world and ?w1.0 = sample_world and df = sample_indexed]
  by (simp add: sample_env_def sample_indexed_def download_stock_data_def empty_frame_def
        reset_index_def index_label_def Let_def set_scalar_def assign_def positions_def write_col_def put_def)

end
